theory Spec2Isabelle
  imports Complex_Main "HOL-Library.Word"
begin

unbundle bit_operations_syntax

section \<open>Data model\<close>

text \<open>
  The program is the class \<open>HelloTriangleApplication\<close> with its \<open>main\<close>: it opens a
  window, creates an instance and a surface, selects a physical device, creates a
  logical device, polls events until the window is closed and destroys what it created.
  (The repository holds an earlier version of the same file too, whose \<open>initVulkan\<close> is
  still empty; it is not modelled.)

  Handles of the window system and of the graphics API are opaque values; they are
  modelled as natural numbers, the null handle being 0.  The C++ type \<open>int\<close> of the
  two family indices and of the loop counter is modelled by \<open>int\<close>: the counter starts
  at 0 and is incremented once per queue family, so it stays in the range of the C++
  type for every family list of fewer than \<open>2 ^ 31\<close> entries.  The 32-bit unsigned
  fields the program reads are \<open>32 word\<close>; where a C++ \<open>int\<close> is converted to an
  unsigned field, the conversion is written out as \<open>to_uint32\<close>.
\<close>

type_synonym handle = nat

definition VK_NULL_HANDLE :: handle where
  "VK_NULL_HANDLE = 0"

record VkQueueFamilyProperties =
  queueFlags :: "32 word"
  queueCount :: "32 word"

record QueueFamilyIndices =
  graphicsFamily :: int
  presentFamily :: int

definition QueueFamilyIndices_init :: QueueFamilyIndices where
  "QueueFamilyIndices_init = \<lparr>graphicsFamily = - 1, presentFamily = - 1\<rparr>"

definition isComplete :: "QueueFamilyIndices \<Rightarrow> bool" where
  "isComplete indices \<longleftrightarrow> graphicsFamily indices \<ge> 0 \<and> presentFamily indices \<ge> 0"

definition to_uint32 :: "int \<Rightarrow> int" where
  "to_uint32 x = x mod 2 ^ 32"

datatype VkStructureType =
    VK_STRUCTURE_TYPE_DEVICE_QUEUE_CREATE_INFO
  | VK_STRUCTURE_TYPE_DEVICE_CREATE_INFO

text \<open>
  The creation structures with the fields the program sets.  \<open>pQueuePriorities\<close> points
  to \<open>queueCount\<close> priorities.  The feature set of the device request has every
  feature off, and the application info of the instance request is descriptive only;
  both are left out.
\<close>

record VkDeviceQueueCreateInfo =
  sType_q :: VkStructureType
  queueFamilyIndex :: int
  queueCount_q :: nat
  pQueuePriorities :: "real list"

record VkDeviceCreateInfo =
  sType_d :: VkStructureType
  pQueueCreateInfos :: "VkDeviceQueueCreateInfo list"
  queueCreateInfoCount :: nat
  enabledExtensionCount :: nat
  enabledLayerCount :: nat

datatype glfw_hint = GLFW_CLIENT_API | GLFW_RESIZABLE

datatype glfw_value = GLFW_NO_API | GLFW_FALSE

datatype error = runtime_error string

text \<open>
  The members of the application object (the member \<open>instance\<close> is \<open>vkInstance\<close>
  here).  All of them but \<open>physicalDevice\<close> are left uninitialised by the C++ class,
  so a run starts from arbitrary values for them.
\<close>

record HelloTriangleApplication =
  window :: handle
  vkInstance :: handle
  device :: handle
  physicalDevice :: handle
  graphicsQueue :: handle
  surface :: handle
  presentQueue :: handle

text \<open>
  The environment: what the window system and the graphics driver answer.  A creation
  call answers \<open>None\<close> when its result is not \<open>VK_SUCCESS\<close>.  The close flag of the
  window is read after a number of event polls.  The constant \<open>VK_QUEUE_GRAPHICS_BIT\<close>
  is defined by the header of the graphics API, which is not part of the repository: it
  is a parameter of the environment, and nothing below depends on its value.
\<close>

record world =
  VK_QUEUE_GRAPHICS_BIT :: "32 word"
  glfwCreateWindow :: handle
  glfwGetRequiredInstanceExtensions :: "string list"
  vkCreateInstance :: "string list \<Rightarrow> handle option"
  glfwCreateWindowSurface :: "handle \<Rightarrow> handle \<Rightarrow> handle option"
  vkEnumeratePhysicalDevices :: "handle \<Rightarrow> handle list"
  vkGetPhysicalDeviceQueueFamilyProperties :: "handle \<Rightarrow> VkQueueFamilyProperties list"
  vkGetPhysicalDeviceSurfaceSupportKHR :: "handle \<Rightarrow> int \<Rightarrow> handle \<Rightarrow> 32 word"
  vkCreateDevice :: "handle \<Rightarrow> VkDeviceCreateInfo \<Rightarrow> handle option"
  vkGetDeviceQueue :: "handle \<Rightarrow> int \<Rightarrow> nat \<Rightarrow> handle"
  glfwWindowShouldClose :: "handle \<Rightarrow> nat \<Rightarrow> bool"

text \<open>
  Every function of the application returns, next to its result, the calls it made to
  the window system and the graphics API, in order.  A creation call is logged with
  its answer.  The flag of \<open>VkEnumeratePhysicalDevices\<close> and of
  \<open>VkGetPhysicalDeviceQueueFamilyProperties\<close> tells whether the array pointer of the
  call was null, which makes the call ask for the number of entries only.
\<close>

datatype call =
    GlfwInit
  | GlfwWindowHint glfw_hint glfw_value
  | GlfwCreateWindow int int string handle
  | GlfwGetRequiredInstanceExtensions
  | VkCreateInstance "string list" "handle option"
  | GlfwCreateWindowSurface handle handle "handle option"
  | VkEnumeratePhysicalDevices handle bool
  | VkGetPhysicalDeviceQueueFamilyProperties handle bool
  | VkGetPhysicalDeviceSurfaceSupportKHR handle int handle
  | VkCreateDevice handle VkDeviceCreateInfo "handle option"
  | VkGetDeviceQueue handle int nat
  | GlfwWindowShouldClose handle
  | GlfwPollEvents
  | VkDestroyDevice handle
  | VkDestroySurfaceKHR handle handle
  | VkDestroyInstance handle
  | GlfwDestroyWindow handle
  | GlfwTerminate

definition WIDTH :: int where
  "WIDTH = 800"

definition HEIGHT :: int where
  "HEIGHT = 600"

section \<open>Queue family resolver\<close>

text \<open>
  The body of the range-based loop of \<open>findQueueFamilies\<close>: \<open>i\<close> is the counter,
  \<open>indices\<close> the selection so far, the list the families not yet visited.
\<close>

fun findQueueFamilies_loop ::
  "world \<Rightarrow> HelloTriangleApplication \<Rightarrow> handle \<Rightarrow> int \<Rightarrow> QueueFamilyIndices \<Rightarrow>
   VkQueueFamilyProperties list \<Rightarrow> QueueFamilyIndices \<times> call list" where
  "findQueueFamilies_loop w app dev i indices [] = (indices, [])"
| "findQueueFamilies_loop w app dev i indices (queueFamily # rest) =
     (let indices1 =
            (if queueCount queueFamily > 0 \<and> queueFlags queueFamily AND VK_QUEUE_GRAPHICS_BIT w \<noteq> 0
             then indices\<lparr>graphicsFamily := i\<rparr> else indices);
          presentSupport = vkGetPhysicalDeviceSurfaceSupportKHR w dev i (surface app);
          indices2 =
            (if queueCount queueFamily > 0 \<and> presentSupport \<noteq> 0
             then indices1\<lparr>presentFamily := i\<rparr> else indices1)
      in if isComplete indices2
         then (indices2, [VkGetPhysicalDeviceSurfaceSupportKHR dev i (surface app)])
         else (case findQueueFamilies_loop w app dev (i + 1) indices2 rest of
                 (r, cs) \<Rightarrow> (r, VkGetPhysicalDeviceSurfaceSupportKHR dev i (surface app) # cs)))"

text \<open>
  \<open>findQueueFamilies\<close> asks for the families twice: first with a null array pointer,
  then with \<open>queueFamilies.data()\<close>, which is the null pointer again when the adapter
  has no queue family.
\<close>

definition findQueueFamilies ::
  "world \<Rightarrow> HelloTriangleApplication \<Rightarrow> handle \<Rightarrow> QueueFamilyIndices \<times> call list" where
  "findQueueFamilies w app dev =
     (let queueFamilies = vkGetPhysicalDeviceQueueFamilyProperties w dev
      in case findQueueFamilies_loop w app dev 0 QueueFamilyIndices_init queueFamilies of
           (r, cs) \<Rightarrow>
             (r, [VkGetPhysicalDeviceQueueFamilyProperties dev True,
                  VkGetPhysicalDeviceQueueFamilyProperties dev (queueFamilies = [])] @ cs))"

definition isDeviceSuitable ::
  "world \<Rightarrow> HelloTriangleApplication \<Rightarrow> handle \<Rightarrow> bool \<times> call list" where
  "isDeviceSuitable w app dev =
     (case findQueueFamilies w app dev of (indices, cs) \<Rightarrow> (isComplete indices, cs))"

text \<open>The family indices whose present support was queried, in the order of the queries.\<close>

fun examined_families :: "call list \<Rightarrow> int list" where
  "examined_families [] = []"
| "examined_families (VkGetPhysicalDeviceSurfaceSupportKHR dev i s # cs) = i # examined_families cs"
| "examined_families (c # cs) = examined_families cs"

text \<open>Family \<open>k\<close> of an adapter has a queue and the graphics bit.\<close>

definition graphics_capable :: "world \<Rightarrow> handle \<Rightarrow> nat \<Rightarrow> bool" where
  "graphics_capable w dev k \<longleftrightarrow>
     k < length (vkGetPhysicalDeviceQueueFamilyProperties w dev) \<and>
     queueCount (vkGetPhysicalDeviceQueueFamilyProperties w dev ! k) > 0 \<and>
     queueFlags (vkGetPhysicalDeviceQueueFamilyProperties w dev ! k) AND VK_QUEUE_GRAPHICS_BIT w \<noteq> 0"

text \<open>Family \<open>k\<close> of an adapter has a queue and can present to the surface.\<close>

definition present_capable :: "world \<Rightarrow> HelloTriangleApplication \<Rightarrow> handle \<Rightarrow> nat \<Rightarrow> bool" where
  "present_capable w app dev k \<longleftrightarrow>
     k < length (vkGetPhysicalDeviceQueueFamilyProperties w dev) \<and>
     queueCount (vkGetPhysicalDeviceQueueFamilyProperties w dev ! k) > 0 \<and>
     vkGetPhysicalDeviceSurfaceSupportKHR w dev (int k) (surface app) \<noteq> 0"


text \<open>
  The two tests of the loop body on one family, and the selection after one pass of
  the body (before the completeness check).
\<close>

definition gfxq :: "world \<Rightarrow> VkQueueFamilyProperties \<Rightarrow> bool" where
  "gfxq w q \<longleftrightarrow> queueCount q > 0 \<and> queueFlags q AND VK_QUEUE_GRAPHICS_BIT w \<noteq> 0"

definition prsq ::
  "world \<Rightarrow> HelloTriangleApplication \<Rightarrow> handle \<Rightarrow> int \<Rightarrow> VkQueueFamilyProperties \<Rightarrow> bool" where
  "prsq w app dev i q \<longleftrightarrow>
     queueCount q > 0 \<and> vkGetPhysicalDeviceSurfaceSupportKHR w dev i (surface app) \<noteq> 0"

definition step ::
  "world \<Rightarrow> HelloTriangleApplication \<Rightarrow> handle \<Rightarrow> int \<Rightarrow> QueueFamilyIndices \<Rightarrow>
   VkQueueFamilyProperties \<Rightarrow> QueueFamilyIndices" where
  "step w app dev i ind q =
     (let ind1 = (if gfxq w q then ind\<lparr>graphicsFamily := i\<rparr> else ind)
      in if prsq w app dev i q then ind1\<lparr>presentFamily := i\<rparr> else ind1)"

text \<open>The selection and the number of families the resolver examines.\<close>

definition resolve :: "world \<Rightarrow> HelloTriangleApplication \<Rightarrow> handle \<Rightarrow> QueueFamilyIndices" where
  "resolve w app dev = fst (findQueueFamilies w app dev)"

definition examined_count :: "world \<Rightarrow> HelloTriangleApplication \<Rightarrow> handle \<Rightarrow> nat" where
  "examined_count w app dev = length (examined_families (snd (findQueueFamilies w app dev)))"

text \<open>The same driver, reporting only the first \<open>m\<close> queue families of every adapter.\<close>

definition first_families :: "nat \<Rightarrow> world \<Rightarrow> world" where
  "first_families m w =
     w\<lparr>vkGetPhysicalDeviceQueueFamilyProperties :=
         (\<lambda>dev. take m (vkGetPhysicalDeviceQueueFamilyProperties w dev))\<rparr>"

section \<open>Device selector\<close>

fun pickPhysicalDevice_loop ::
  "world \<Rightarrow> HelloTriangleApplication \<Rightarrow> handle list \<Rightarrow> HelloTriangleApplication \<times> call list" where
  "pickPhysicalDevice_loop w app [] = (app, [])"
| "pickPhysicalDevice_loop w app (dev # rest) =
     (case isDeviceSuitable w app dev of
        (suitable, cs) \<Rightarrow>
          if suitable then (app\<lparr>physicalDevice := dev\<rparr>, cs)
          else (case pickPhysicalDevice_loop w app rest of (app', cs') \<Rightarrow> (app', cs @ cs')))"

definition pickPhysicalDevice ::
  "world \<Rightarrow> HelloTriangleApplication \<Rightarrow> (error + HelloTriangleApplication) \<times> call list" where
  "pickPhysicalDevice w app =
     (let devices = vkEnumeratePhysicalDevices w (vkInstance app);
          deviceCount = length devices
      in if deviceCount = 0
         then (Inl (runtime_error ''failed to find GPUs with Vulkan support!''),
               [VkEnumeratePhysicalDevices (vkInstance app) True])
         else (case pickPhysicalDevice_loop w app devices of
                 (app', cs) \<Rightarrow>
                   if physicalDevice app' = VK_NULL_HANDLE
                   then (Inl (runtime_error ''failed to find a suitable GPU!''),
                         [VkEnumeratePhysicalDevices (vkInstance app) True,
                          VkEnumeratePhysicalDevices (vkInstance app) False] @ cs)
                   else (Inr app',
                         [VkEnumeratePhysicalDevices (vkInstance app) True,
                          VkEnumeratePhysicalDevices (vkInstance app) False] @ cs)))"

text \<open>The errors of the selector, under the names the specification gives them.\<close>

definition NoAdaptersFoundError :: error where
  "NoAdaptersFoundError = runtime_error ''failed to find GPUs with Vulkan support!''"

definition NoSuitableAdapterError :: error where
  "NoSuitableAdapterError = runtime_error ''failed to find a suitable GPU!''"

text \<open>
  The adapter of every query for queue families among a list of calls, in the order of
  the queries and whatever the array pointer of the query was.  The resolver makes two
  such queries for the adapter it examines.
\<close>

fun family_queries :: "call list \<Rightarrow> handle list" where
  "family_queries [] = []"
| "family_queries (VkGetPhysicalDeviceQueueFamilyProperties dev b # cs) =
     dev # family_queries cs"
| "family_queries (c # cs) = family_queries cs"

section \<open>Logical device builder\<close>

text \<open>Insertion into a \<open>std::set<int>\<close>, kept as an ascending list without duplicates.\<close>

fun set_insert :: "int \<Rightarrow> int list \<Rightarrow> int list" where
  "set_insert x [] = [x]"
| "set_insert x (y # ys) =
     (if x < y then x # y # ys else if x = y then y # ys else y # set_insert x ys)"

definition createLogicalDevice ::
  "world \<Rightarrow> HelloTriangleApplication \<Rightarrow> (error + HelloTriangleApplication) \<times> call list" where
  "createLogicalDevice w app =
     (case findQueueFamilies w app (physicalDevice app) of
        (indices, cs) \<Rightarrow>
          (let uniqueQueueFamilies =
                 set_insert (presentFamily indices) (set_insert (graphicsFamily indices) []);
               queuePriority = 1;
               queueCreateInfos =
                 map (\<lambda>queueFamily.
                        \<lparr>sType_q = VK_STRUCTURE_TYPE_DEVICE_QUEUE_CREATE_INFO,
                         queueFamilyIndex = to_uint32 queueFamily,
                         queueCount_q = 1,
                         pQueuePriorities = [queuePriority]\<rparr>) uniqueQueueFamilies;
               createInfo =
                 \<lparr>sType_d = VK_STRUCTURE_TYPE_DEVICE_CREATE_INFO,
                  pQueueCreateInfos = queueCreateInfos,
                  queueCreateInfoCount = length queueCreateInfos,
                  enabledExtensionCount = 0,
                  enabledLayerCount = 0\<rparr>
           in case vkCreateDevice w (physicalDevice app) createInfo of
                None \<Rightarrow>
                  (Inl (runtime_error ''failed to create logical device!''),
                   cs @ [VkCreateDevice (physicalDevice app) createInfo None])
              | Some d \<Rightarrow>
                  (Inr (app\<lparr>device := d,
                            presentQueue :=
                              vkGetDeviceQueue w d (to_uint32 (presentFamily indices)) 0\<rparr>),
                   cs @ [VkCreateDevice (physicalDevice app) createInfo (Some d),
                         VkGetDeviceQueue d (to_uint32 (presentFamily indices)) 0])))"

text \<open>The device-queue-creation requests and the queue retrievals among a list of calls.\<close>

fun queue_requests :: "call list \<Rightarrow> VkDeviceQueueCreateInfo list" where
  "queue_requests [] = []"
| "queue_requests (VkCreateDevice pd createInfo r # cs) =
     pQueueCreateInfos createInfo @ queue_requests cs"
| "queue_requests (c # cs) = queue_requests cs"

fun retrieved_queues :: "call list \<Rightarrow> (int \<times> nat) list" where
  "retrieved_queues [] = []"
| "retrieved_queues (VkGetDeviceQueue d family index # cs) = (family, index) # retrieved_queues cs"
| "retrieved_queues (c # cs) = retrieved_queues cs"

section \<open>Lifecycle controller\<close>

definition createInstance ::
  "world \<Rightarrow> HelloTriangleApplication \<Rightarrow> (error + HelloTriangleApplication) \<times> call list" where
  "createInstance w app =
     (let glfwExtensions = glfwGetRequiredInstanceExtensions w
      in case vkCreateInstance w glfwExtensions of
           None \<Rightarrow>
             (Inl (runtime_error ''failed to create instance!''),
              [GlfwGetRequiredInstanceExtensions, VkCreateInstance glfwExtensions None])
         | Some h \<Rightarrow>
             (Inr (app\<lparr>vkInstance := h\<rparr>),
              [GlfwGetRequiredInstanceExtensions, VkCreateInstance glfwExtensions (Some h)]))"

definition initWindow ::
  "world \<Rightarrow> HelloTriangleApplication \<Rightarrow> HelloTriangleApplication \<times> call list" where
  "initWindow w app =
     (app\<lparr>window := glfwCreateWindow w\<rparr>,
      [GlfwInit,
       GlfwWindowHint GLFW_CLIENT_API GLFW_NO_API,
       GlfwWindowHint GLFW_RESIZABLE GLFW_FALSE,
       GlfwCreateWindow WIDTH HEIGHT ''Vulkan'' (glfwCreateWindow w)])"

definition createSurface ::
  "world \<Rightarrow> HelloTriangleApplication \<Rightarrow> (error + HelloTriangleApplication) \<times> call list" where
  "createSurface w app =
     (case glfwCreateWindowSurface w (vkInstance app) (window app) of
        None \<Rightarrow>
          (Inl (runtime_error ''failed to create window surface!''),
           [GlfwCreateWindowSurface (vkInstance app) (window app) None])
      | Some s \<Rightarrow>
          (Inr (app\<lparr>surface := s\<rparr>),
           [GlfwCreateWindowSurface (vkInstance app) (window app) (Some s)]))"

text \<open>Sequencing of two steps: an exception of the first skips the second.\<close>

definition and_then ::
  "(error + HelloTriangleApplication) \<times> call list \<Rightarrow>
   (HelloTriangleApplication \<Rightarrow> (error + HelloTriangleApplication) \<times> call list) \<Rightarrow>
   (error + HelloTriangleApplication) \<times> call list" where
  "and_then r f =
     (case r of
        (Inl e, cs) \<Rightarrow> (Inl e, cs)
      | (Inr app, cs) \<Rightarrow> (case f app of (r', cs') \<Rightarrow> (r', cs @ cs')))"

definition initVulkan ::
  "world \<Rightarrow> HelloTriangleApplication \<Rightarrow> (error + HelloTriangleApplication) \<times> call list" where
  "initVulkan w app =
     and_then (and_then (and_then (createInstance w app) (createSurface w))
       (pickPhysicalDevice w)) (createLogicalDevice w)"

text \<open>
  The loop of \<open>mainLoop\<close> may run forever: it is a partial function, \<open>None\<close> when the
  window is never closed.  \<open>polls\<close> counts the event polls made so far.
\<close>

partial_function (option) mainLoop_loop ::
  "world \<Rightarrow> HelloTriangleApplication \<Rightarrow> nat \<Rightarrow> call list \<Rightarrow> call list option" where
  "mainLoop_loop w app polls cs =
     (if \<not> glfwWindowShouldClose w (window app) polls
      then mainLoop_loop w app (Suc polls)
             (cs @ [GlfwWindowShouldClose (window app), GlfwPollEvents])
      else Some (cs @ [GlfwWindowShouldClose (window app)]))"

definition mainLoop :: "world \<Rightarrow> HelloTriangleApplication \<Rightarrow> call list option" where
  "mainLoop w app = mainLoop_loop w app 0 []"

definition cleanup :: "HelloTriangleApplication \<Rightarrow> call list" where
  "cleanup app =
     [VkDestroyDevice (device app),
      VkDestroySurfaceKHR (vkInstance app) (surface app),
      VkDestroyInstance (vkInstance app),
      GlfwDestroyWindow (window app),
      GlfwTerminate]"

definition run ::
  "world \<Rightarrow> HelloTriangleApplication \<Rightarrow>
   ((error + HelloTriangleApplication) \<times> call list) option" where
  "run w app =
     (case initWindow w app of
        (app1, cs1) \<Rightarrow>
          (case initVulkan w app1 of
             (Inl e, cs2) \<Rightarrow> Some (Inl e, cs1 @ cs2)
           | (Inr app2, cs2) \<Rightarrow>
               (case mainLoop w app2 of
                  None \<Rightarrow> None
                | Some cs3 \<Rightarrow> Some (Inr app2, cs1 @ cs2 @ cs3 @ cleanup app2))))"

datatype exit_status = EXIT_SUCCESS | EXIT_FAILURE

text \<open>
  \<open>main\<close> constructs the application (only \<open>physicalDevice\<close> has an initialiser; \<open>mem\<close>
  is what the other members happen to hold), runs it and reports the exit status, the
  lines written to the error stream and the calls made.
\<close>

definition main ::
  "world \<Rightarrow> HelloTriangleApplication \<Rightarrow> (exit_status \<times> string list \<times> call list) option" where
  "main w mem =
     (case run w (mem\<lparr>physicalDevice := VK_NULL_HANDLE\<rparr>) of
        None \<Rightarrow> None
      | Some (Inl (runtime_error what), cs) \<Rightarrow> Some (EXIT_FAILURE, [what], cs)
      | Some (Inr app, cs) \<Rightarrow> Some (EXIT_SUCCESS, [], cs))"

text \<open>The handles a list of calls acquires and the handles it destroys, in order.\<close>

datatype resource = Window handle | Instance handle | Surface handle | Device handle

fun acquisitions :: "call list \<Rightarrow> resource list" where
  "acquisitions [] = []"
| "acquisitions (GlfwCreateWindow wd ht title h # cs) = Window h # acquisitions cs"
| "acquisitions (VkCreateInstance exts (Some h) # cs) = Instance h # acquisitions cs"
| "acquisitions (GlfwCreateWindowSurface inst win (Some h) # cs) = Surface h # acquisitions cs"
| "acquisitions (VkCreateDevice pd createInfo (Some h) # cs) = Device h # acquisitions cs"
| "acquisitions (c # cs) = acquisitions cs"

fun releases :: "call list \<Rightarrow> resource list" where
  "releases [] = []"
| "releases (VkDestroyDevice h # cs) = Device h # releases cs"
| "releases (VkDestroySurfaceKHR inst h # cs) = Surface h # releases cs"
| "releases (VkDestroyInstance h # cs) = Instance h # releases cs"
| "releases (GlfwDestroyWindow h # cs) = Window h # releases cs"
| "releases (c # cs) = releases cs"

section \<open>Example environments\<close>

definition test_world :: world where
  "test_world =
     \<lparr>VK_QUEUE_GRAPHICS_BIT = 1,
      glfwCreateWindow = 10,
      glfwGetRequiredInstanceExtensions = [''VK_KHR_surface''],
      vkCreateInstance = (\<lambda>exts. Some 20),
      glfwCreateWindowSurface = (\<lambda>inst win. Some 30),
      vkEnumeratePhysicalDevices = (\<lambda>inst. [11, 12, 13]),
      vkGetPhysicalDeviceQueueFamilyProperties =
        (\<lambda>dev. if dev = 11 then [\<lparr>queueFlags = 2, queueCount = 1\<rparr>]
               else if dev = 12 then [\<lparr>queueFlags = 1, queueCount = 1\<rparr>,
                                     \<lparr>queueFlags = 3, queueCount = 2\<rparr>,
                                     \<lparr>queueFlags = 4, queueCount = 1\<rparr>]
               else if dev = 13 then [\<lparr>queueFlags = 7, queueCount = 4\<rparr>]
               else if dev = 15 then [\<lparr>queueFlags = 1, queueCount = 1\<rparr>,
                                     \<lparr>queueFlags = 1, queueCount = 1\<rparr>,
                                     \<lparr>queueFlags = 1, queueCount = 1\<rparr>]
               else []),
      vkGetPhysicalDeviceSurfaceSupportKHR =
        (\<lambda>dev i s. if s = 30 \<and> (dev = 12 \<and> i = 2 \<or> dev = 13 \<and> i = 0 \<or> dev = 15 \<and> 1 \<le> i)
                   then 1 else 0),
      vkCreateDevice = (\<lambda>pd createInfo. Some 40),
      vkGetDeviceQueue = (\<lambda>d family index. 50 + nat family),
      glfwWindowShouldClose = (\<lambda>win polls. 2 \<le> polls)\<rparr>"

definition test_app :: HelloTriangleApplication where
  "test_app =
     \<lparr>window = 10, vkInstance = 20, device = 0, physicalDevice = 0, graphicsQueue = 0,
      surface = 30, presentQueue = 0\<rparr>"

text \<open>
  Variants of the example environment: no adapter at all, only unsuitable adapters, a
  window system that cannot create the surface; the application after the selector has
  picked adapter 12 or adapter 13; and what a run in the example environment returns.
\<close>

definition no_adapter_world :: world where
  "no_adapter_world = test_world\<lparr>vkEnumeratePhysicalDevices := (\<lambda>inst. [])\<rparr>"

definition unsuitable_world :: world where
  "unsuitable_world = test_world\<lparr>vkEnumeratePhysicalDevices := (\<lambda>inst. [11, 14])\<rparr>"

definition picked_app :: HelloTriangleApplication where
  "picked_app = test_app\<lparr>physicalDevice := 12\<rparr>"

definition same_family_app :: HelloTriangleApplication where
  "same_family_app = test_app\<lparr>physicalDevice := 13\<rparr>"

definition surface_fail_world :: world where
  "surface_fail_world = test_world\<lparr>glfwCreateWindowSurface := (\<lambda>inst win. None)\<rparr>"

definition test_run_app :: HelloTriangleApplication where
  "test_run_app =
     \<lparr>window = 10, vkInstance = 20, device = 40, physicalDevice = 12, graphicsQueue = 0,
      surface = 30, presentQueue = 52\<rparr>"

definition test_run_calls :: "call list" where
  "test_run_calls =
     [GlfwInit,
      GlfwWindowHint GLFW_CLIENT_API GLFW_NO_API,
      GlfwWindowHint GLFW_RESIZABLE GLFW_FALSE,
      GlfwCreateWindow 800 600 ''Vulkan'' 10,
      GlfwGetRequiredInstanceExtensions,
      VkCreateInstance [''VK_KHR_surface''] (Some 20),
      GlfwCreateWindowSurface 20 10 (Some 30),
      VkEnumeratePhysicalDevices 20 True,
      VkEnumeratePhysicalDevices 20 False,
      VkGetPhysicalDeviceQueueFamilyProperties 11 True,
      VkGetPhysicalDeviceQueueFamilyProperties 11 False,
      VkGetPhysicalDeviceSurfaceSupportKHR 11 0 30,
      VkGetPhysicalDeviceQueueFamilyProperties 12 True,
      VkGetPhysicalDeviceQueueFamilyProperties 12 False,
      VkGetPhysicalDeviceSurfaceSupportKHR 12 0 30,
      VkGetPhysicalDeviceSurfaceSupportKHR 12 1 30,
      VkGetPhysicalDeviceSurfaceSupportKHR 12 2 30,
      VkGetPhysicalDeviceQueueFamilyProperties 12 True,
      VkGetPhysicalDeviceQueueFamilyProperties 12 False,
      VkGetPhysicalDeviceSurfaceSupportKHR 12 0 30,
      VkGetPhysicalDeviceSurfaceSupportKHR 12 1 30,
      VkGetPhysicalDeviceSurfaceSupportKHR 12 2 30,
      VkCreateDevice 12
        \<lparr>sType_d = VK_STRUCTURE_TYPE_DEVICE_CREATE_INFO,
         pQueueCreateInfos =
           [\<lparr>sType_q = VK_STRUCTURE_TYPE_DEVICE_QUEUE_CREATE_INFO, queueFamilyIndex = 1,
             queueCount_q = 1, pQueuePriorities = [1]\<rparr>,
            \<lparr>sType_q = VK_STRUCTURE_TYPE_DEVICE_QUEUE_CREATE_INFO, queueFamilyIndex = 2,
             queueCount_q = 1, pQueuePriorities = [1]\<rparr>],
         queueCreateInfoCount = 2, enabledExtensionCount = 0, enabledLayerCount = 0\<rparr>
        (Some 40),
      VkGetDeviceQueue 40 2 0,
      GlfwWindowShouldClose 10,
      GlfwPollEvents,
      GlfwWindowShouldClose 10,
      GlfwPollEvents,
      GlfwWindowShouldClose 10,
      VkDestroyDevice 40,
      VkDestroySurfaceKHR 20 30,
      VkDestroyInstance 20,
      GlfwDestroyWindow 10,
      GlfwTerminate]"

definition surface_fail_calls :: "call list" where
  "surface_fail_calls =
     [GlfwInit,
      GlfwWindowHint GLFW_CLIENT_API GLFW_NO_API,
      GlfwWindowHint GLFW_RESIZABLE GLFW_FALSE,
      GlfwCreateWindow 800 600 ''Vulkan'' 10,
      GlfwGetRequiredInstanceExtensions,
      VkCreateInstance [''VK_KHR_surface''] (Some 20),
      GlfwCreateWindowSurface 20 10 None]"

section \<open>Properties of the queue family resolver\<close>

lemma graphicsFamily_step [simp]:
  "graphicsFamily (step w app dev i ind q) = (if gfxq w q then i else graphicsFamily ind)"
  by (simp add: step_def)

lemma presentFamily_step [simp]:
  "presentFamily (step w app dev i ind q) = (if prsq w app dev i q then i else presentFamily ind)"
  by (simp add: step_def)

lemma loop_Cons:
  "findQueueFamilies_loop w app dev i ind (q # qs) =
     (if isComplete (step w app dev i ind q)
      then (step w app dev i ind q, [VkGetPhysicalDeviceSurfaceSupportKHR dev i (surface app)])
      else (fst (findQueueFamilies_loop w app dev (i + 1) (step w app dev i ind q) qs),
            VkGetPhysicalDeviceSurfaceSupportKHR dev i (surface app) #
            snd (findQueueFamilies_loop w app dev (i + 1) (step w app dev i ind q) qs)))"
  by (simp add: step_def gfxq_def prsq_def Let_def split: prod.splits)

declare findQueueFamilies_loop.simps(2) [simp del]

lemma ex_less_Cons:
  "(\<exists>k<length (q # qs). P k ((q # qs) ! k)) \<longleftrightarrow> P 0 q \<or> (\<exists>k<length qs. P (Suc k) (qs ! k))"
  by (auto simp: less_Suc_eq_0_disj)

lemma loop_complete_iff:
  "0 \<le> i \<Longrightarrow>
   isComplete (fst (findQueueFamilies_loop w app dev i ind qs)) \<longleftrightarrow>
     (graphicsFamily ind \<ge> 0 \<or> (\<exists>k<length qs. gfxq w (qs ! k))) \<and>
     (presentFamily ind \<ge> 0 \<or> (\<exists>k<length qs. prsq w app dev (i + int k) (qs ! k)))"
proof (induction qs arbitrary: i ind)
  case Nil
  then show ?case by (simp add: isComplete_def)
next
  case (Cons q qs)
  have g: "(\<exists>k<length (q # qs). gfxq w ((q # qs) ! k)) \<longleftrightarrow> gfxq w q \<or> (\<exists>k<length qs. gfxq w (qs ! k))"
    using ex_less_Cons [of q qs "\<lambda>k. gfxq w"] by simp
  have p: "(\<exists>k<length (q # qs). prsq w app dev (i + int k) ((q # qs) ! k)) \<longleftrightarrow>
           prsq w app dev i q \<or> (\<exists>k<length qs. prsq w app dev (i + 1 + int k) (qs ! k))"
    using ex_less_Cons [of q qs "\<lambda>k. prsq w app dev (i + int k)"] by (simp add: algebra_simps)
  show ?case
  proof (cases "isComplete (step w app dev i ind q)")
    case True
    then show ?thesis
      using Cons.prems unfolding g p loop_Cons
      by (auto simp: isComplete_def split: if_splits)
  next
    case False
    have "0 \<le> i + 1" using Cons.prems by simp
    from Cons.IH [OF this, of "step w app dev i ind q"] False show ?thesis
      using Cons.prems unfolding g p loop_Cons
      by (auto simp: isComplete_def split: if_splits)
  qed
qed

lemma loop_Nil_iff:
  "snd (findQueueFamilies_loop w app dev i ind qs) = [] \<longleftrightarrow> qs = []"
  by (cases qs) (simp_all add: loop_Cons)

lemma loop_length_le:
  "length (snd (findQueueFamilies_loop w app dev i ind qs)) \<le> length qs"
  by (induction qs arbitrary: i ind) (simp_all add: loop_Cons)

lemma loop_incomplete_length:
  "\<not> isComplete (fst (findQueueFamilies_loop w app dev i ind qs)) \<Longrightarrow>
   length (snd (findQueueFamilies_loop w app dev i ind qs)) = length qs"
  by (induction qs arbitrary: i ind) (simp_all add: loop_Cons split: if_splits)

lemma loop_examined:
  "examined_families (snd (findQueueFamilies_loop w app dev i ind qs)) =
     [i .. i + int (length (snd (findQueueFamilies_loop w app dev i ind qs))) - 1]"
proof (induction qs arbitrary: i ind)
  case Nil
  then show ?case by simp
next
  case (Cons q qs)
  show ?case
  proof (cases "isComplete (step w app dev i ind q)")
    case True
    then show ?thesis by (simp add: loop_Cons)
  next
    case False
    have "[i .. i + int (Suc (length (snd (findQueueFamilies_loop w app dev (i + 1) (step w app dev i ind q) qs)))) - 1]
        = i # [i + 1 .. i + 1 + int (length (snd (findQueueFamilies_loop w app dev (i + 1) (step w app dev i ind q) qs))) - 1]"
      by (subst upto_rec1) (simp_all add: algebra_simps)
    with False Cons.IH [of "i + 1" "step w app dev i ind q"] show ?thesis
      by (simp add: loop_Cons)
  qed
qed

lemma loop_calls:
  "c \<in> set (snd (findQueueFamilies_loop w app dev i ind qs)) \<Longrightarrow>
   \<exists>j. c = VkGetPhysicalDeviceSurfaceSupportKHR dev j (surface app)"
  by (induction qs arbitrary: i ind) (auto simp: loop_Cons split: if_splits)

lemma loop_max:
  "\<not> isComplete ind \<Longrightarrow> graphicsFamily ind < i \<Longrightarrow> presentFamily ind < i \<Longrightarrow>
   isComplete (fst (findQueueFamilies_loop w app dev i ind qs)) \<Longrightarrow>
   max (graphicsFamily (fst (findQueueFamilies_loop w app dev i ind qs)))
       (presentFamily (fst (findQueueFamilies_loop w app dev i ind qs))) =
     i + int (length (snd (findQueueFamilies_loop w app dev i ind qs))) - 1"
proof (induction qs arbitrary: i ind)
  case Nil
  then show ?case by simp
next
  case (Cons q qs)
  show ?case
  proof (cases "isComplete (step w app dev i ind q)")
    case True
    with Cons.prems show ?thesis
      by (auto simp: loop_Cons isComplete_def split: if_splits)
  next
    case False
    have 1: "graphicsFamily (step w app dev i ind q) < i + 1"
      and 2: "presentFamily (step w app dev i ind q) < i + 1"
      using Cons.prems by auto
    have 3: "isComplete (fst (findQueueFamilies_loop w app dev (i + 1) (step w app dev i ind q) qs))"
      using Cons.prems(4) False by (simp add: loop_Cons)
    from Cons.IH [OF False 1 2 3] False show ?thesis
      by (simp add: loop_Cons)
  qed
qed

lemma loop_graphics_sound:
  "graphicsFamily (fst (findQueueFamilies_loop w app dev i ind qs)) = graphicsFamily ind \<or>
   (\<exists>k<length (snd (findQueueFamilies_loop w app dev i ind qs)).
      graphicsFamily (fst (findQueueFamilies_loop w app dev i ind qs)) = i + int k \<and> gfxq w (qs ! k))"
proof (induction qs arbitrary: i ind)
  case Nil
  then show ?case by simp
next
  case (Cons q qs)
  show ?case
  proof (cases "isComplete (step w app dev i ind q)")
    case True
    then show ?thesis by (auto simp: loop_Cons)
  next
    case False
    from Cons.IH [of "i + 1" "step w app dev i ind q"]
    show ?thesis
    proof
      assume "graphicsFamily (fst (findQueueFamilies_loop w app dev (i + 1) (step w app dev i ind q) qs)) =
              graphicsFamily (step w app dev i ind q)"
      with False show ?thesis by (auto simp: loop_Cons)
    next
      assume "\<exists>k<length (snd (findQueueFamilies_loop w app dev (i + 1) (step w app dev i ind q) qs)).
         graphicsFamily (fst (findQueueFamilies_loop w app dev (i + 1) (step w app dev i ind q) qs)) = i + 1 + int k \<and>
         gfxq w (qs ! k)"
      then obtain k where "k < length (snd (findQueueFamilies_loop w app dev (i + 1) (step w app dev i ind q) qs))"
        "graphicsFamily (fst (findQueueFamilies_loop w app dev (i + 1) (step w app dev i ind q) qs)) = i + 1 + int k"
        "gfxq w (qs ! k)" by blast
      with False have "Suc k < length (snd (findQueueFamilies_loop w app dev i ind (q # qs))) \<and>
        graphicsFamily (fst (findQueueFamilies_loop w app dev i ind (q # qs))) = i + int (Suc k) \<and>
        gfxq w ((q # qs) ! Suc k)" by (simp add: loop_Cons)
      then show ?thesis by blast
    qed
  qed
qed

lemma loop_graphics_highest:
  "k < length (snd (findQueueFamilies_loop w app dev i ind qs)) \<Longrightarrow> gfxq w (qs ! k) \<Longrightarrow>
   i + int k \<le> graphicsFamily (fst (findQueueFamilies_loop w app dev i ind qs))"
proof (induction qs arbitrary: i ind k)
  case Nil
  then show ?case by simp
next
  case (Cons q qs)
  show ?case
  proof (cases "isComplete (step w app dev i ind q)")
    case True
    with Cons.prems show ?thesis by (auto simp: loop_Cons)
  next
    case False
    show ?thesis
    proof (cases k)
      case 0
      with Cons.prems have g: "graphicsFamily (step w app dev i ind q) = i" by simp
      from loop_graphics_sound [of w app dev "i + 1" "step w app dev i ind q" qs]
      have "i \<le> graphicsFamily (fst (findQueueFamilies_loop w app dev (i + 1) (step w app dev i ind q) qs))"
        unfolding g by auto
      with False 0 show ?thesis by (simp add: loop_Cons)
    next
      case (Suc k')
      with Cons.prems False
      have "k' < length (snd (findQueueFamilies_loop w app dev (i + 1) (step w app dev i ind q) qs))"
        and "gfxq w (qs ! k')" by (simp_all add: loop_Cons)
      from Cons.IH [OF this] False Suc show ?thesis by (simp add: loop_Cons)
    qed
  qed
qed


lemma loop_present_sound:
  "presentFamily (fst (findQueueFamilies_loop w app dev i ind qs)) = presentFamily ind \<or>
   (\<exists>k<length (snd (findQueueFamilies_loop w app dev i ind qs)).
      presentFamily (fst (findQueueFamilies_loop w app dev i ind qs)) = i + int k \<and>
      prsq w app dev (i + int k) (qs ! k))"
proof (induction qs arbitrary: i ind)
  case Nil
  then show ?case by simp
next
  case (Cons q qs)
  show ?case
  proof (cases "isComplete (step w app dev i ind q)")
    case True
    then show ?thesis by (auto simp: loop_Cons)
  next
    case False
    from Cons.IH [of "i + 1" "step w app dev i ind q"]
    show ?thesis
    proof
      assume "presentFamily (fst (findQueueFamilies_loop w app dev (i + 1) (step w app dev i ind q) qs)) =
              presentFamily (step w app dev i ind q)"
      with False show ?thesis by (auto simp: loop_Cons)
    next
      assume "\<exists>k<length (snd (findQueueFamilies_loop w app dev (i + 1) (step w app dev i ind q) qs)).
         presentFamily (fst (findQueueFamilies_loop w app dev (i + 1) (step w app dev i ind q) qs)) = i + 1 + int k \<and>
         prsq w app dev (i + 1 + int k) (qs ! k)"
      then obtain k where "k < length (snd (findQueueFamilies_loop w app dev (i + 1) (step w app dev i ind q) qs))"
        "presentFamily (fst (findQueueFamilies_loop w app dev (i + 1) (step w app dev i ind q) qs)) = i + 1 + int k"
        "prsq w app dev (i + 1 + int k) (qs ! k)" by blast
      with False have "Suc k < length (snd (findQueueFamilies_loop w app dev i ind (q # qs))) \<and>
        presentFamily (fst (findQueueFamilies_loop w app dev i ind (q # qs))) = i + int (Suc k) \<and>
        prsq w app dev (i + int (Suc k)) ((q # qs) ! Suc k)" by (simp add: loop_Cons algebra_simps)
      then show ?thesis by blast
    qed
  qed
qed

lemma loop_present_highest:
  "k < length (snd (findQueueFamilies_loop w app dev i ind qs)) \<Longrightarrow>
   prsq w app dev (i + int k) (qs ! k) \<Longrightarrow>
   i + int k \<le> presentFamily (fst (findQueueFamilies_loop w app dev i ind qs))"
proof (induction qs arbitrary: i ind k)
  case Nil
  then show ?case by simp
next
  case (Cons q qs)
  show ?case
  proof (cases "isComplete (step w app dev i ind q)")
    case True
    with Cons.prems show ?thesis by (auto simp: loop_Cons)
  next
    case False
    show ?thesis
    proof (cases k)
      case 0
      with Cons.prems have g: "presentFamily (step w app dev i ind q) = i" by simp
      from loop_present_sound [of w app dev "i + 1" "step w app dev i ind q" qs]
      have "i \<le> presentFamily (fst (findQueueFamilies_loop w app dev (i + 1) (step w app dev i ind q) qs))"
        unfolding g by auto
      with False 0 show ?thesis by (simp add: loop_Cons)
    next
      case (Suc k')
      with Cons.prems False
      have "k' < length (snd (findQueueFamilies_loop w app dev (i + 1) (step w app dev i ind q) qs))"
        and "prsq w app dev (i + 1 + int k') (qs ! k')" by (simp_all add: loop_Cons algebra_simps)
      from Cons.IH [OF this] False Suc show ?thesis by (simp add: loop_Cons algebra_simps)
    qed
  qed
qed

lemma loop_take:
  "\<not> isComplete ind \<Longrightarrow>
   isComplete (fst (findQueueFamilies_loop w app dev i ind (take m qs))) \<Longrightarrow>
   findQueueFamilies_loop w app dev i ind qs = findQueueFamilies_loop w app dev i ind (take m qs)"
proof (induction qs arbitrary: i ind m)
  case Nil
  then show ?case by simp
next
  case (Cons q qs)
  show ?case
  proof (cases m)
    case 0
    with Cons.prems show ?thesis by simp
  next
    case (Suc m')
    show ?thesis
    proof (cases "isComplete (step w app dev i ind q)")
      case True
      then show ?thesis by (simp add: Suc loop_Cons)
    next
      case False
      with Cons.prems(2) Suc
      have "isComplete (fst (findQueueFamilies_loop w app dev (i + 1) (step w app dev i ind q) (take m' qs)))"
        by (simp add: loop_Cons)
      from Cons.IH [OF False this] False show ?thesis by (simp add: Suc loop_Cons)
    qed
  qed
qed

lemma loop_first:
  "\<not> isComplete ind \<Longrightarrow>
   isComplete (fst (findQueueFamilies_loop w app dev i ind qs)) \<Longrightarrow>
   m < length (snd (findQueueFamilies_loop w app dev i ind qs)) \<Longrightarrow>
   \<not> isComplete (fst (findQueueFamilies_loop w app dev i ind (take m qs)))"
proof (induction qs arbitrary: i ind m)
  case Nil
  then show ?case by simp
next
  case (Cons q qs)
  show ?case
  proof (cases m)
    case 0
    with Cons.prems show ?thesis by simp
  next
    case (Suc m')
    show ?thesis
    proof (cases "isComplete (step w app dev i ind q)")
      case True
      with Cons.prems(3) Suc show ?thesis by (simp add: loop_Cons)
    next
      case False
      with Cons.prems Suc
      have "isComplete (fst (findQueueFamilies_loop w app dev (i + 1) (step w app dev i ind q) qs))"
        and "m' < length (snd (findQueueFamilies_loop w app dev (i + 1) (step w app dev i ind q) qs))"
        by (simp_all add: loop_Cons)
      from Cons.IH [OF False this] False show ?thesis by (simp add: Suc loop_Cons)
    qed
  qed
qed

lemma loop_take_examined:
  "findQueueFamilies_loop w app dev i ind
     (take (length (snd (findQueueFamilies_loop w app dev i ind qs))) qs) =
   findQueueFamilies_loop w app dev i ind qs"
  by (induction qs arbitrary: i ind) (simp_all add: loop_Cons)

lemma loop_examined_length:
  "length (examined_families (snd (findQueueFamilies_loop w app dev i ind qs))) =
   length (snd (findQueueFamilies_loop w app dev i ind qs))"
  by (simp add: loop_examined)

lemma resolve_loop:
  "resolve w app dev =
     fst (findQueueFamilies_loop w app dev 0 QueueFamilyIndices_init
            (vkGetPhysicalDeviceQueueFamilyProperties w dev))"
  by (simp add: resolve_def findQueueFamilies_def Let_def case_prod_beta)

lemma examined_findQueueFamilies:
  "examined_families (snd (findQueueFamilies w app dev)) =
     examined_families (snd (findQueueFamilies_loop w app dev 0 QueueFamilyIndices_init
            (vkGetPhysicalDeviceQueueFamilyProperties w dev)))"
  by (simp add: findQueueFamilies_def Let_def case_prod_beta)

lemma examined_count_loop:
  "examined_count w app dev =
     length (snd (findQueueFamilies_loop w app dev 0 QueueFamilyIndices_init
            (vkGetPhysicalDeviceQueueFamilyProperties w dev)))"
  by (simp add: examined_count_def examined_findQueueFamilies loop_examined_length)

lemma init_incomplete: "\<not> isComplete QueueFamilyIndices_init"
  by (simp add: isComplete_def QueueFamilyIndices_init_def)

lemma graphics_capable_gfxq:
  "graphics_capable w dev k \<longleftrightarrow>
     k < length (vkGetPhysicalDeviceQueueFamilyProperties w dev) \<and>
     gfxq w (vkGetPhysicalDeviceQueueFamilyProperties w dev ! k)"
  by (simp add: graphics_capable_def gfxq_def)

lemma present_capable_prsq:
  "present_capable w app dev k \<longleftrightarrow>
     k < length (vkGetPhysicalDeviceQueueFamilyProperties w dev) \<and>
     prsq w app dev (int k) (vkGetPhysicalDeviceQueueFamilyProperties w dev ! k)"
  by (simp add: present_capable_def prsq_def)

lemma first_families_simps [simp]:
  "vkGetPhysicalDeviceQueueFamilyProperties (first_families m w) dev =
     take m (vkGetPhysicalDeviceQueueFamilyProperties w dev)"
  "vkGetPhysicalDeviceSurfaceSupportKHR (first_families m w) = vkGetPhysicalDeviceSurfaceSupportKHR w"
  "VK_QUEUE_GRAPHICS_BIT (first_families m w) = VK_QUEUE_GRAPHICS_BIT w"
  by (simp_all add: first_families_def)

lemma loop_first_families:
  "findQueueFamilies_loop (first_families m w) app dev i ind qs =
   findQueueFamilies_loop w app dev i ind qs"
  by (induction qs arbitrary: i ind) (simp_all add: loop_Cons step_def prsq_def gfxq_def)

lemma isDeviceSuitable_fst:
  "fst (isDeviceSuitable w app dev) = isComplete (resolve w app dev)"
  by (simp add: isDeviceSuitable_def resolve_def case_prod_beta)

lemma isDeviceSuitable_snd:
  "snd (isDeviceSuitable w app dev) = snd (findQueueFamilies w app dev)"
  by (simp add: isDeviceSuitable_def case_prod_beta)


lemmas eval_resolver =
  findQueueFamilies_def findQueueFamilies_loop.simps(2) QueueFamilyIndices_init_def
  isComplete_def test_world_def test_app_def

lemma findQueueFamilies_dev1:
  "findQueueFamilies test_world test_app 11 =
     (\<lparr>graphicsFamily = - 1, presentFamily = - 1\<rparr>,
      [VkGetPhysicalDeviceQueueFamilyProperties 11 True,
       VkGetPhysicalDeviceQueueFamilyProperties 11 False,
       VkGetPhysicalDeviceSurfaceSupportKHR 11 0 30])"
  by (simp add: eval_resolver)

lemma findQueueFamilies_dev2:
  "findQueueFamilies test_world test_app 12 =
     (\<lparr>graphicsFamily = 1, presentFamily = 2\<rparr>,
      [VkGetPhysicalDeviceQueueFamilyProperties 12 True,
       VkGetPhysicalDeviceQueueFamilyProperties 12 False,
       VkGetPhysicalDeviceSurfaceSupportKHR 12 0 30,
       VkGetPhysicalDeviceSurfaceSupportKHR 12 1 30,
       VkGetPhysicalDeviceSurfaceSupportKHR 12 2 30])"
  by (simp add: eval_resolver)

lemma findQueueFamilies_dev3:
  "findQueueFamilies test_world test_app 13 =
     (\<lparr>graphicsFamily = 0, presentFamily = 0\<rparr>,
      [VkGetPhysicalDeviceQueueFamilyProperties 13 True,
       VkGetPhysicalDeviceQueueFamilyProperties 13 False,
       VkGetPhysicalDeviceSurfaceSupportKHR 13 0 30])"
  by (simp add: eval_resolver)

lemma findQueueFamilies_dev4:
  "findQueueFamilies test_world test_app 14 =
     (\<lparr>graphicsFamily = - 1, presentFamily = - 1\<rparr>,
      [VkGetPhysicalDeviceQueueFamilyProperties 14 True,
       VkGetPhysicalDeviceQueueFamilyProperties 14 True])"
  by (simp add: eval_resolver)

lemma findQueueFamilies_dev5:
  "findQueueFamilies test_world test_app 15 =
     (\<lparr>graphicsFamily = 1, presentFamily = 1\<rparr>,
      [VkGetPhysicalDeviceQueueFamilyProperties 15 True,
       VkGetPhysicalDeviceQueueFamilyProperties 15 False,
       VkGetPhysicalDeviceSurfaceSupportKHR 15 0 30,
       VkGetPhysicalDeviceSurfaceSupportKHR 15 1 30])"
  by (simp add: eval_resolver)

lemma findQueueFamilies_dev5_first2:
  "findQueueFamilies (first_families (Suc 1) test_world) test_app 15 =
     (\<lparr>graphicsFamily = 1, presentFamily = 1\<rparr>,
      [VkGetPhysicalDeviceQueueFamilyProperties 15 True,
       VkGetPhysicalDeviceQueueFamilyProperties 15 False,
       VkGetPhysicalDeviceSurfaceSupportKHR 15 0 30,
       VkGetPhysicalDeviceSurfaceSupportKHR 15 1 30])"
  by (simp add: eval_resolver first_families_def)

section \<open>Claims about the queue family resolver\<close>

text \<open>
  C10.  The selection the resolver returns is complete exactly when the adapter has a
  family with a queue and the graphics bit, and a family with a queue that can present
  to the surface; the suitability test of the device selector is the same predicate.
\<close>

theorem resolver_complete_iff:
  "(isComplete (fst (findQueueFamilies w app dev)) \<longleftrightarrow>
      (\<exists>k. graphics_capable w dev k) \<and> (\<exists>k. present_capable w app dev k)) \<and>
   (fst (isDeviceSuitable w app dev) \<longleftrightarrow>
      (\<exists>k. graphics_capable w dev k) \<and> (\<exists>k. present_capable w app dev k))"
proof -
  have "isComplete (resolve w app dev) \<longleftrightarrow>
      (\<exists>k. graphics_capable w dev k) \<and> (\<exists>k. present_capable w app dev k)"
    unfolding resolve_loop graphics_capable_gfxq present_capable_prsq
    using loop_complete_iff [of 0 w app dev QueueFamilyIndices_init
        "vkGetPhysicalDeviceQueueFamilyProperties w dev"]
    by (simp add: QueueFamilyIndices_init_def)
  then show ?thesis
    by (simp add: isDeviceSuitable_fst) (simp add: resolve_def)
qed

theorem resolver_complete_iff_witness:
  "graphics_capable test_world 12 0 \<and> present_capable test_world test_app 12 2 \<and>
   isComplete (fst (findQueueFamilies test_world test_app 12)) \<and>
   fst (isDeviceSuitable test_world test_app 12)"
proof -
  have "graphics_capable test_world 12 0"
    by (simp add: graphics_capable_def test_world_def)
  moreover have "present_capable test_world test_app 12 2"
    by (simp add: present_capable_def test_world_def test_app_def)
  ultimately show ?thesis
    using resolver_complete_iff [of test_world test_app 12] by blast
qed

text \<open>
  C9.  The resolver raises no error: it is a total function whose result is a selection
  (there is no error in its result type, as there is no \<open>throw\<close> in its body).  Each
  field of the selection is the empty sentinel \<open>-1\<close> or an index into the family list,
  and for an adapter with no queue family both fields are \<open>-1\<close>, so the selection is
  incomplete.
\<close>

theorem resolver_total:
  "(graphicsFamily (fst (findQueueFamilies w app dev)) = - 1 \<or>
      0 \<le> graphicsFamily (fst (findQueueFamilies w app dev)) \<and>
      graphicsFamily (fst (findQueueFamilies w app dev)) <
        int (length (vkGetPhysicalDeviceQueueFamilyProperties w dev))) \<and>
   (presentFamily (fst (findQueueFamilies w app dev)) = - 1 \<or>
      0 \<le> presentFamily (fst (findQueueFamilies w app dev)) \<and>
      presentFamily (fst (findQueueFamilies w app dev)) <
        int (length (vkGetPhysicalDeviceQueueFamilyProperties w dev))) \<and>
   (vkGetPhysicalDeviceQueueFamilyProperties w dev = [] \<longrightarrow>
      graphicsFamily (fst (findQueueFamilies w app dev)) = - 1 \<and>
      presentFamily (fst (findQueueFamilies w app dev)) = - 1 \<and>
      \<not> isComplete (fst (findQueueFamilies w app dev)))"
proof -
  let ?qs = "vkGetPhysicalDeviceQueueFamilyProperties w dev"
  let ?l = "findQueueFamilies_loop w app dev 0 QueueFamilyIndices_init ?qs"
  have n: "length (snd ?l) \<le> length ?qs" by (rule loop_length_le)
  have g: "graphicsFamily (fst ?l) = - 1 \<or>
           0 \<le> graphicsFamily (fst ?l) \<and> graphicsFamily (fst ?l) < int (length ?qs)"
    using loop_graphics_sound [of w app dev 0 QueueFamilyIndices_init ?qs] n
    by (auto simp: QueueFamilyIndices_init_def)
  have p: "presentFamily (fst ?l) = - 1 \<or>
           0 \<le> presentFamily (fst ?l) \<and> presentFamily (fst ?l) < int (length ?qs)"
    using loop_present_sound [of w app dev 0 QueueFamilyIndices_init ?qs] n
    by (auto simp: QueueFamilyIndices_init_def)
  have e: "?qs = [] \<longrightarrow> graphicsFamily (fst ?l) = - 1 \<and> presentFamily (fst ?l) = - 1 \<and>
           \<not> isComplete (fst ?l)"
    by (simp add: QueueFamilyIndices_init_def isComplete_def)
  from g p e show ?thesis
    unfolding resolve_loop [unfolded resolve_def] by blast
qed

theorem resolver_total_witness:
  "vkGetPhysicalDeviceQueueFamilyProperties test_world 14 = [] \<and>
   graphicsFamily (fst (findQueueFamilies test_world test_app 14)) = - 1 \<and>
   presentFamily (fst (findQueueFamilies test_world test_app 14)) = - 1 \<and>
   \<not> isComplete (fst (findQueueFamilies test_world test_app 14))"
proof -
  have "vkGetPhysicalDeviceQueueFamilyProperties test_world 14 = []"
    by (simp add: test_world_def)
  then show ?thesis
    using resolver_total [of test_world test_app 14] by blast
qed

text \<open>
  C7.  The scan stops as soon as both fields are non-negative: when the selection over
  the families \<open>0..k\<close> alone is complete, the resolver returns that selection and makes
  the same calls, whatever families follow, and no family index above \<open>k\<close> is examined.
\<close>

theorem resolver_short_circuit:
  assumes "isComplete (fst (findQueueFamilies (first_families (Suc k) w) app dev))"
  shows "findQueueFamilies w app dev = findQueueFamilies (first_families (Suc k) w) app dev \<and>
         (\<forall>j\<in>set (examined_families (snd (findQueueFamilies w app dev))). j \<le> int k)"
proof -
  let ?qs = "vkGetPhysicalDeviceQueueFamilyProperties w dev"
  let ?t = "findQueueFamilies_loop w app dev 0 QueueFamilyIndices_init (take (Suc k) ?qs)"
  have c: "isComplete (fst ?t)"
    using assms by (simp add: findQueueFamilies_def loop_first_families case_prod_beta Let_def)
  have eq: "findQueueFamilies_loop w app dev 0 QueueFamilyIndices_init ?qs = ?t"
    using init_incomplete c by (rule loop_take)
  have 1: "findQueueFamilies w app dev = findQueueFamilies (first_families (Suc k) w) app dev"
    by (simp add: findQueueFamilies_def loop_first_families eq Let_def)
  have "length (snd ?t) \<le> length (take (Suc k) ?qs)" by (rule loop_length_le)
  then have n: "length (snd ?t) \<le> Suc k" by simp
  have "examined_families (snd (findQueueFamilies w app dev)) = [0 .. int (length (snd ?t)) - 1]"
    unfolding examined_findQueueFamilies eq by (simp add: loop_examined)
  with n have 2: "\<forall>j\<in>set (examined_families (snd (findQueueFamilies w app dev))). j \<le> int k"
    by auto
  from 1 2 show ?thesis by blast
qed

theorem resolver_short_circuit_witness:
  "isComplete (fst (findQueueFamilies (first_families (Suc 1) test_world) test_app 15)) \<and>
   graphics_capable test_world 15 2 \<and> present_capable test_world test_app 15 2 \<and>
   fst (findQueueFamilies test_world test_app 15) = \<lparr>graphicsFamily = 1, presentFamily = 1\<rparr> \<and>
   examined_families (snd (findQueueFamilies test_world test_app 15)) = [0, 1] \<and>
   findQueueFamilies test_world test_app 15 =
     findQueueFamilies (first_families (Suc 1) test_world) test_app 15"
proof -
  have c: "isComplete (fst (findQueueFamilies (first_families (Suc 1) test_world) test_app 15))"
    unfolding findQueueFamilies_dev5_first2 by (simp add: isComplete_def)
  have g: "graphics_capable test_world 15 2"
    by (simp add: graphics_capable_def test_world_def)
  have p: "present_capable test_world test_app 15 2"
    by (simp add: present_capable_def test_world_def test_app_def)
  have r: "fst (findQueueFamilies test_world test_app 15) = \<lparr>graphicsFamily = 1, presentFamily = 1\<rparr>"
    and e: "examined_families (snd (findQueueFamilies test_world test_app 15)) = [0, 1]"
    by (simp_all add: findQueueFamilies_dev5)
  from resolver_short_circuit [OF c] c g p r e show ?thesis by blast
qed

text \<open>
  C1, as the claim states it, fails: adapter 12 of the example environment has the
  graphics-capable families 0 and 1 and the present-capable family 2; the selection is
  complete with \<open>graphicsFamily = 1\<close>, which is neither the lowest graphics-capable
  index (0) nor the index at which the selection becomes complete (2).
\<close>

theorem resolver_lowest_index_counterexample:
  "graphics_capable test_world 12 0 \<and>
   isComplete (fst (findQueueFamilies test_world test_app 12)) \<and>
   graphicsFamily (fst (findQueueFamilies test_world test_app 12)) = 1 \<and>
   presentFamily (fst (findQueueFamilies test_world test_app 12)) = 2 \<and>
   graphicsFamily (fst (findQueueFamilies test_world test_app 12)) \<noteq> 0"
proof -
  have "graphics_capable test_world 12 0"
    by (simp add: graphics_capable_def test_world_def)
  then show ?thesis
    by (simp add: findQueueFamilies_dev2 isComplete_def)
qed

text \<open>
  C1, amended.  The scan examines the family indices \<open>0..n-1\<close> in order.  Each field
  holds the highest qualifying index among the examined ones (a later graphics-capable
  family overwrites \<open>graphicsFamily\<close>, a later present-capable one \<open>presentFamily\<close>), or
  \<open>-1\<close> when no examined family qualifies.  When the selection is complete, the last
  examined index is the greater of the two fields and is the lowest index at which
  completeness is reached: over fewer families the selection is incomplete.  When the
  selection is incomplete, every family was examined.  The same index may be assigned
  to both fields, as for adapter 13 of the example environment.
\<close>

theorem resolver_fields:
  "(graphicsFamily (resolve w app dev) = - 1 \<and>
      (\<forall>k<examined_count w app dev. \<not> graphics_capable w dev k) \<or>
    0 \<le> graphicsFamily (resolve w app dev) \<and>
      nat (graphicsFamily (resolve w app dev)) < examined_count w app dev \<and>
      graphics_capable w dev (nat (graphicsFamily (resolve w app dev))) \<and>
      (\<forall>k<examined_count w app dev.
          graphics_capable w dev k \<longrightarrow> int k \<le> graphicsFamily (resolve w app dev))) \<and>
   (presentFamily (resolve w app dev) = - 1 \<and>
      (\<forall>k<examined_count w app dev. \<not> present_capable w app dev k) \<or>
    0 \<le> presentFamily (resolve w app dev) \<and>
      nat (presentFamily (resolve w app dev)) < examined_count w app dev \<and>
      present_capable w app dev (nat (presentFamily (resolve w app dev))) \<and>
      (\<forall>k<examined_count w app dev.
          present_capable w app dev k \<longrightarrow> int k \<le> presentFamily (resolve w app dev))) \<and>
   examined_families (snd (findQueueFamilies w app dev)) = [0 .. int (examined_count w app dev) - 1] \<and>
   examined_count w app dev \<le> length (vkGetPhysicalDeviceQueueFamilyProperties w dev) \<and>
   (isComplete (resolve w app dev) \<longrightarrow>
      int (examined_count w app dev) =
        max (graphicsFamily (resolve w app dev)) (presentFamily (resolve w app dev)) + 1 \<and>
      (\<forall>m<examined_count w app dev. \<not> isComplete (resolve (first_families m w) app dev))) \<and>
   (\<not> isComplete (resolve w app dev) \<longrightarrow>
      examined_count w app dev = length (vkGetPhysicalDeviceQueueFamilyProperties w dev)) \<and>
   (\<exists>w' app' dev'. isComplete (resolve w' app' dev') \<and>
      graphicsFamily (resolve w' app' dev') = presentFamily (resolve w' app' dev'))"
proof -
  let ?qs = "vkGetPhysicalDeviceQueueFamilyProperties w dev"
  let ?l = "findQueueFamilies_loop w app dev 0 QueueFamilyIndices_init ?qs"
  let ?n = "length (snd ?l)"
  have n: "?n \<le> length ?qs" by (rule loop_length_le)
  have g: "graphicsFamily (fst ?l) = - 1 \<and> (\<forall>k<?n. \<not> graphics_capable w dev k) \<or>
           0 \<le> graphicsFamily (fst ?l) \<and> nat (graphicsFamily (fst ?l)) < ?n \<and>
           graphics_capable w dev (nat (graphicsFamily (fst ?l))) \<and>
           (\<forall>k<?n. graphics_capable w dev k \<longrightarrow> int k \<le> graphicsFamily (fst ?l))"
  proof -
    have hi: "\<forall>k<?n. graphics_capable w dev k \<longrightarrow> int k \<le> graphicsFamily (fst ?l)"
      using loop_graphics_highest [of _ w app dev 0 QueueFamilyIndices_init ?qs]
      by (auto simp: graphics_capable_gfxq)
    from loop_graphics_sound [of w app dev 0 QueueFamilyIndices_init ?qs]
    show ?thesis
    proof
      assume a: "graphicsFamily (fst ?l) = graphicsFamily QueueFamilyIndices_init"
      then have "graphicsFamily (fst ?l) = - 1" by (simp add: QueueFamilyIndices_init_def)
      moreover from this hi have "\<forall>k<?n. \<not> graphics_capable w dev k" by auto
      ultimately show ?thesis by blast
    next
      assume "\<exists>k<?n. graphicsFamily (fst ?l) = 0 + int k \<and> gfxq w (?qs ! k)"
      then obtain k where "k < ?n" "graphicsFamily (fst ?l) = int k" "gfxq w (?qs ! k)" by auto
      with n hi show ?thesis by (auto simp: graphics_capable_gfxq)
    qed
  qed
  have p: "presentFamily (fst ?l) = - 1 \<and> (\<forall>k<?n. \<not> present_capable w app dev k) \<or>
           0 \<le> presentFamily (fst ?l) \<and> nat (presentFamily (fst ?l)) < ?n \<and>
           present_capable w app dev (nat (presentFamily (fst ?l))) \<and>
           (\<forall>k<?n. present_capable w app dev k \<longrightarrow> int k \<le> presentFamily (fst ?l))"
  proof -
    have hi: "\<forall>k<?n. present_capable w app dev k \<longrightarrow> int k \<le> presentFamily (fst ?l)"
      using loop_present_highest [of _ w app dev 0 QueueFamilyIndices_init ?qs]
      by (auto simp: present_capable_prsq)
    from loop_present_sound [of w app dev 0 QueueFamilyIndices_init ?qs]
    show ?thesis
    proof
      assume a: "presentFamily (fst ?l) = presentFamily QueueFamilyIndices_init"
      then have "presentFamily (fst ?l) = - 1" by (simp add: QueueFamilyIndices_init_def)
      moreover from this hi have "\<forall>k<?n. \<not> present_capable w app dev k" by auto
      ultimately show ?thesis by blast
    next
      assume "\<exists>k<?n. presentFamily (fst ?l) = 0 + int k \<and> prsq w app dev (0 + int k) (?qs ! k)"
      then obtain k where "k < ?n" "presentFamily (fst ?l) = int k" "prsq w app dev (int k) (?qs ! k)"
        by auto
      with n hi show ?thesis by (auto simp: present_capable_prsq)
    qed
  qed
  have e: "examined_families (snd (findQueueFamilies w app dev)) = [0 .. int ?n - 1]"
    unfolding examined_findQueueFamilies by (simp add: loop_examined)
  have c: "isComplete (fst ?l) \<longrightarrow>
      int ?n = max (graphicsFamily (fst ?l)) (presentFamily (fst ?l)) + 1 \<and>
      (\<forall>m<?n. \<not> isComplete (resolve (first_families m w) app dev))"
  proof
    assume a: "isComplete (fst ?l)"
    have "max (graphicsFamily (fst ?l)) (presentFamily (fst ?l)) = 0 + int ?n - 1"
      by (rule loop_max [OF init_incomplete _ _ a]) (simp_all add: QueueFamilyIndices_init_def)
    moreover have "\<forall>m<?n. \<not> isComplete (resolve (first_families m w) app dev)"
      using loop_first [OF init_incomplete a]
      by (simp add: resolve_loop loop_first_families)
    ultimately show "int ?n = max (graphicsFamily (fst ?l)) (presentFamily (fst ?l)) + 1 \<and>
      (\<forall>m<?n. \<not> isComplete (resolve (first_families m w) app dev))" by simp
  qed
  have i: "\<not> isComplete (fst ?l) \<longrightarrow> ?n = length ?qs"
    using loop_incomplete_length by blast
  have "isComplete (resolve test_world test_app 13) \<and>
      graphicsFamily (resolve test_world test_app 13) = presentFamily (resolve test_world test_app 13)"
    by (simp add: resolve_def findQueueFamilies_dev3 isComplete_def)
  then have s: "\<exists>w' app' dev'. isComplete (resolve w' app' dev') \<and>
      graphicsFamily (resolve w' app' dev') = presentFamily (resolve w' app' dev')"
    by blast
  from g p e n c i have "?thesis \<longleftrightarrow> (\<exists>w' app' dev'. isComplete (resolve w' app' dev') \<and>
      graphicsFamily (resolve w' app' dev') = presentFamily (resolve w' app' dev'))"
    unfolding examined_count_loop resolve_loop by blast
  with s show ?thesis by blast
qed

theorem resolver_fields_witness:
  "isComplete (resolve test_world test_app 12) \<and>
   examined_count test_world test_app 12 = 3 \<and>
   graphics_capable test_world 12 0 \<and>
   graphics_capable test_world 12 1 \<and>
   present_capable test_world test_app 12 2 \<and>
   graphicsFamily (resolve test_world test_app 12) = 1 \<and>
   presentFamily (resolve test_world test_app 12) = 2 \<and>
   \<not> isComplete (resolve (first_families 2 test_world) test_app 12)"
proof -
  have c: "isComplete (resolve test_world test_app 12)"
    and g: "graphicsFamily (resolve test_world test_app 12) = 1"
    and p: "presentFamily (resolve test_world test_app 12) = 2"
    by (simp_all add: resolve_def findQueueFamilies_dev2 isComplete_def)
  have n: "examined_count test_world test_app 12 = 3"
    by (simp add: examined_count_def findQueueFamilies_dev2)
  have g0: "graphics_capable test_world 12 0" and g1: "graphics_capable test_world 12 1"
    by (simp_all add: graphics_capable_def test_world_def)
  have p2: "present_capable test_world test_app 12 2"
    by (simp add: present_capable_def test_world_def test_app_def)
  from resolver_fields [of test_world test_app 12] c
  have "\<forall>m<examined_count test_world test_app 12.
      \<not> isComplete (resolve (first_families m test_world) test_app 12)"
    by blast
  with n have "\<not> isComplete (resolve (first_families 2 test_world) test_app 12)"
    by simp
  with c g p n g0 g1 p2 show ?thesis by blast
qed

section \<open>Properties of the device selector\<close>

lemma family_queries_append:
  "family_queries (xs @ ys) = family_queries xs @ family_queries ys"
  by (induction xs rule: family_queries.induct) simp_all

lemma family_queries_loop:
  "family_queries (snd (findQueueFamilies_loop w app dev i ind qs)) = []"
  by (induction qs arbitrary: i ind) (simp_all add: loop_Cons)

lemma family_queries_findQueueFamilies:
  "family_queries (snd (findQueueFamilies w app dev)) = [dev, dev]"
  by (simp add: findQueueFamilies_def Let_def case_prod_beta family_queries_loop)

lemma family_queries_resolver_calls:
  "family_queries (concat (map (\<lambda>a. snd (findQueueFamilies w app a)) devs)) =
     concat (map (\<lambda>a. [a, a]) devs)"
  by (induction devs) (simp_all add: family_queries_append family_queries_findQueueFamilies)

lemma pick_loop_none:
  "\<forall>a\<in>set devs. \<not> isComplete (resolve w app a) \<Longrightarrow>
   fst (pickPhysicalDevice_loop w app devs) = app \<and>
   snd (pickPhysicalDevice_loop w app devs) =
     concat (map (\<lambda>a. snd (findQueueFamilies w app a)) devs)"
proof (induction devs)
  case Nil
  then show ?case by simp
next
  case (Cons a devs)
  then have "\<not> fst (isDeviceSuitable w app a)" by (simp add: isDeviceSuitable_fst)
  with Cons show ?case
    by (simp add: case_prod_beta isDeviceSuitable_snd)
qed

lemma pick_loop_first:
  "\<forall>a\<in>set pre. \<not> isComplete (resolve w app a) \<Longrightarrow> isComplete (resolve w app d) \<Longrightarrow>
   fst (pickPhysicalDevice_loop w app (pre @ d # post)) = app\<lparr>physicalDevice := d\<rparr> \<and>
   snd (pickPhysicalDevice_loop w app (pre @ d # post)) =
     concat (map (\<lambda>a. snd (findQueueFamilies w app a)) (pre @ [d]))"
proof (induction pre)
  case Nil
  then have "fst (isDeviceSuitable w app d)" by (simp add: isDeviceSuitable_fst)
  then show ?case
    by (simp add: case_prod_beta isDeviceSuitable_snd)
next
  case (Cons a pre)
  then have "\<not> fst (isDeviceSuitable w app a)" by (simp add: isDeviceSuitable_fst)
  with Cons show ?case
    by (simp add: case_prod_beta isDeviceSuitable_snd)
qed

text \<open>
  C2.  The selector visits the adapters in enumeration order and returns the first one
  for which the resolver yields a complete selection: when the enumerated list is
  \<open>pre @ d # post\<close>, no adapter of \<open>pre\<close> is suitable and \<open>d\<close> is, the selector stores
  \<open>d\<close> in \<open>physicalDevice\<close> and returns normally.  The calls it made are the two
  enumeration calls followed by the calls of the resolver for the adapters of
  \<open>pre @ [d]\<close>, in this order, and nothing else: the queue families were asked for
  twice for each of these adapters and for no adapter of \<open>post\<close>.  The handles the API
  enumerates are valid, so \<open>d\<close> is not the null handle (the selector recognises failure
  by \<open>physicalDevice\<close> still being null after the loop).
\<close>

theorem selector_first_suitable:
  assumes "vkEnumeratePhysicalDevices w (vkInstance app) = pre @ d # post"
    and "\<forall>a\<in>set pre. \<not> isComplete (resolve w app a)"
    and "isComplete (resolve w app d)"
    and "d \<noteq> VK_NULL_HANDLE"
  shows "fst (pickPhysicalDevice w app) = Inr (app\<lparr>physicalDevice := d\<rparr>) \<and>
         snd (pickPhysicalDevice w app) =
           [VkEnumeratePhysicalDevices (vkInstance app) True,
            VkEnumeratePhysicalDevices (vkInstance app) False] @
           concat (map (\<lambda>a. snd (findQueueFamilies w app a)) (pre @ [d])) \<and>
         family_queries (snd (pickPhysicalDevice w app)) =
           concat (map (\<lambda>a. [a, a]) (pre @ [d]))"
proof -
  from pick_loop_first [OF assms(2,3), of post]
  have 1: "fst (pickPhysicalDevice_loop w app (pre @ d # post)) = app\<lparr>physicalDevice := d\<rparr>"
    and 2: "snd (pickPhysicalDevice_loop w app (pre @ d # post)) =
              concat (map (\<lambda>a. snd (findQueueFamilies w app a)) (pre @ [d]))"
    by simp_all
  from assms(4) 1 have r: "fst (pickPhysicalDevice w app) = Inr (app\<lparr>physicalDevice := d\<rparr>)"
    by (simp add: pickPhysicalDevice_def assms(1) Let_def case_prod_beta)
  from assms(4) 1 have c: "snd (pickPhysicalDevice w app) =
      [VkEnumeratePhysicalDevices (vkInstance app) True,
       VkEnumeratePhysicalDevices (vkInstance app) False] @
      concat (map (\<lambda>a. snd (findQueueFamilies w app a)) (pre @ [d]))"
    unfolding 2 [symmetric]
    by (simp add: pickPhysicalDevice_def assms(1) Let_def case_prod_beta)
  have "family_queries (snd (pickPhysicalDevice w app)) = concat (map (\<lambda>a. [a, a]) (pre @ [d]))"
    unfolding c family_queries_append family_queries_resolver_calls by simp
  with r c show ?thesis by blast
qed

theorem selector_first_suitable_witness:
  "vkEnumeratePhysicalDevices test_world (vkInstance test_app) = [11] @ 12 # [13] \<and>
   \<not> isComplete (resolve test_world test_app 11) \<and>
   isComplete (resolve test_world test_app 12) \<and>
   isComplete (resolve test_world test_app 13) \<and>
   fst (pickPhysicalDevice test_world test_app) = Inr (test_app\<lparr>physicalDevice := 12\<rparr>) \<and>
   family_queries (snd (pickPhysicalDevice test_world test_app)) = [11, 11, 12, 12]"
proof -
  have e: "vkEnumeratePhysicalDevices test_world (vkInstance test_app) = [11] @ 12 # [13]"
    by (simp add: test_world_def)
  have a: "\<forall>a\<in>set [11]. \<not> isComplete (resolve test_world test_app a)"
    by (simp add: resolve_def findQueueFamilies_dev1 isComplete_def)
  have b: "isComplete (resolve test_world test_app 12)"
    by (simp add: resolve_def findQueueFamilies_dev2 isComplete_def)
  have c: "isComplete (resolve test_world test_app 13)"
    by (simp add: resolve_def findQueueFamilies_dev3 isComplete_def)
  have n: "(12::nat) \<noteq> VK_NULL_HANDLE" by (simp add: VK_NULL_HANDLE_def)
  from selector_first_suitable [OF e a b n]
  have "fst (pickPhysicalDevice test_world test_app) = Inr (test_app\<lparr>physicalDevice := 12\<rparr>) \<and>
      family_queries (snd (pickPhysicalDevice test_world test_app)) =
        concat (map (\<lambda>a. [a, a]) ([11] @ [12]))"
    by blast
  with e a b c show ?thesis by simp
qed

text \<open>
  C8.  The selector fails with \<open>NoAdaptersFoundError\<close> exactly when the enumerated list
  is empty.  Over a non-empty list with no suitable adapter it fails with
  \<open>NoSuitableAdapterError\<close> after examining every adapter of the list: the calls it
  made are the two enumeration calls followed by the calls of the resolver for every
  enumerated adapter, in enumeration order, so the queue families of each were asked
  for (twice).  Here \<open>physicalDevice\<close> holds the null handle when the selector starts,
  as the member's initialiser makes it.
\<close>

theorem selector_errors:
  "(fst (pickPhysicalDevice w app) = Inl NoAdaptersFoundError \<longleftrightarrow>
      vkEnumeratePhysicalDevices w (vkInstance app) = []) \<and>
   (physicalDevice app = VK_NULL_HANDLE \<longrightarrow>
    vkEnumeratePhysicalDevices w (vkInstance app) \<noteq> [] \<longrightarrow>
    (\<forall>a\<in>set (vkEnumeratePhysicalDevices w (vkInstance app)). \<not> isComplete (resolve w app a)) \<longrightarrow>
      fst (pickPhysicalDevice w app) = Inl NoSuitableAdapterError \<and>
      snd (pickPhysicalDevice w app) =
        [VkEnumeratePhysicalDevices (vkInstance app) True,
         VkEnumeratePhysicalDevices (vkInstance app) False] @
        concat (map (\<lambda>a. snd (findQueueFamilies w app a))
                  (vkEnumeratePhysicalDevices w (vkInstance app))) \<and>
      family_queries (snd (pickPhysicalDevice w app)) =
        concat (map (\<lambda>a. [a, a]) (vkEnumeratePhysicalDevices w (vkInstance app))))"
proof -
  let ?devs = "vkEnumeratePhysicalDevices w (vkInstance app)"
  have 1: "fst (pickPhysicalDevice w app) = Inl NoAdaptersFoundError \<longleftrightarrow> ?devs = []"
    by (simp add: pickPhysicalDevice_def NoAdaptersFoundError_def Let_def case_prod_beta)
  have 2: "fst (pickPhysicalDevice w app) = Inl NoSuitableAdapterError \<and>
      snd (pickPhysicalDevice w app) =
        [VkEnumeratePhysicalDevices (vkInstance app) True,
         VkEnumeratePhysicalDevices (vkInstance app) False] @
        concat (map (\<lambda>a. snd (findQueueFamilies w app a)) ?devs) \<and>
      family_queries (snd (pickPhysicalDevice w app)) = concat (map (\<lambda>a. [a, a]) ?devs)"
    if a: "physicalDevice app = VK_NULL_HANDLE"
      and b: "?devs \<noteq> []"
      and c: "\<forall>a\<in>set ?devs. \<not> isComplete (resolve w app a)"
  proof -
    from pick_loop_none [OF c] have f: "fst (pickPhysicalDevice_loop w app ?devs) = app"
      and l: "snd (pickPhysicalDevice_loop w app ?devs) =
                concat (map (\<lambda>a. snd (findQueueFamilies w app a)) ?devs)"
      by simp_all
    from f a b have r: "fst (pickPhysicalDevice w app) = Inl NoSuitableAdapterError"
      by (simp add: pickPhysicalDevice_def NoSuitableAdapterError_def Let_def case_prod_beta)
    from f a b have s: "snd (pickPhysicalDevice w app) =
        [VkEnumeratePhysicalDevices (vkInstance app) True,
         VkEnumeratePhysicalDevices (vkInstance app) False] @
        concat (map (\<lambda>a. snd (findQueueFamilies w app a)) ?devs)"
      unfolding l [symmetric]
      by (simp add: pickPhysicalDevice_def Let_def case_prod_beta)
    have "family_queries (snd (pickPhysicalDevice w app)) = concat (map (\<lambda>a. [a, a]) ?devs)"
      unfolding s family_queries_append family_queries_resolver_calls by simp
    with r s show ?thesis by blast
  qed
  from 1 2 show ?thesis by blast
qed

theorem selector_errors_witness:
  "vkEnumeratePhysicalDevices no_adapter_world (vkInstance test_app) = [] \<and>
   fst (pickPhysicalDevice no_adapter_world test_app) = Inl NoAdaptersFoundError \<and>
   physicalDevice test_app = VK_NULL_HANDLE \<and>
   vkEnumeratePhysicalDevices unsuitable_world (vkInstance test_app) = [11, 14] \<and>
   fst (pickPhysicalDevice unsuitable_world test_app) = Inl NoSuitableAdapterError \<and>
   family_queries (snd (pickPhysicalDevice unsuitable_world test_app)) = [11, 11, 14, 14]"
proof -
  have e: "vkEnumeratePhysicalDevices no_adapter_world (vkInstance test_app) = []"
    by (simp add: no_adapter_world_def)
  have p: "physicalDevice test_app = VK_NULL_HANDLE"
    by (simp add: test_app_def VK_NULL_HANDLE_def)
  have u: "vkEnumeratePhysicalDevices unsuitable_world (vkInstance test_app) = [11, 14]"
    by (simp add: unsuitable_world_def)
  have n: "vkEnumeratePhysicalDevices unsuitable_world (vkInstance test_app) \<noteq> []"
    by (simp add: u)
  have a: "\<forall>a\<in>set (vkEnumeratePhysicalDevices unsuitable_world (vkInstance test_app)).
             \<not> isComplete (resolve unsuitable_world test_app a)"
    unfolding u
    by (simp add: resolve_def unsuitable_world_def eval_resolver)
  from selector_errors [of no_adapter_world test_app] e
  have 1: "fst (pickPhysicalDevice no_adapter_world test_app) = Inl NoAdaptersFoundError"
    by blast
  from selector_errors [of unsuitable_world test_app] p n a
  have 2: "fst (pickPhysicalDevice unsuitable_world test_app) = Inl NoSuitableAdapterError \<and>
      family_queries (snd (pickPhysicalDevice unsuitable_world test_app)) =
        concat (map (\<lambda>a. [a, a])
                  (vkEnumeratePhysicalDevices unsuitable_world (vkInstance test_app)))"
    by blast
  from e p u 1 2 show ?thesis by simp
qed

section \<open>Properties of the logical device builder\<close>

lemma to_uint32_id: "0 \<le> x \<Longrightarrow> x < 2 ^ 31 \<Longrightarrow> to_uint32 x = x"
  by (simp add: to_uint32_def)

lemma queue_requests_append:
  "queue_requests (xs @ ys) = queue_requests xs @ queue_requests ys"
  by (induction xs rule: queue_requests.induct) simp_all

lemma queue_requests_loop:
  "queue_requests (snd (findQueueFamilies_loop w app dev i ind qs)) = []"
  by (induction qs arbitrary: i ind) (simp_all add: loop_Cons)

lemma queue_requests_findQueueFamilies:
  "queue_requests (snd (findQueueFamilies w app dev)) = []"
  by (simp add: findQueueFamilies_def Let_def case_prod_beta queue_requests_loop)

lemma queue_requests_createLogicalDevice:
  "queue_requests (snd (createLogicalDevice w app)) =
     map (\<lambda>queueFamily.
            \<lparr>sType_q = VK_STRUCTURE_TYPE_DEVICE_QUEUE_CREATE_INFO,
             queueFamilyIndex = to_uint32 queueFamily,
             queueCount_q = 1,
             pQueuePriorities = [1]\<rparr>)
       (set_insert (presentFamily (resolve w app (physicalDevice app)))
          (set_insert (graphicsFamily (resolve w app (physicalDevice app))) []))"
  by (simp add: createLogicalDevice_def resolve_def Let_def case_prod_beta queue_requests_append
      queue_requests_findQueueFamilies split: option.splits)

text \<open>
  C3.  For a complete selection (whose fields are in the range of the C++ type \<open>int\<close>)
  the builder issues one device-queue-creation request per distinct family index among
  \<open>graphicsFamily\<close> and \<open>presentFamily\<close>: the family indices of the requests are
  distinct and are exactly these two, there is one request when they are equal and two
  otherwise, and every request asks for one queue at priority 1.
\<close>

theorem builder_queue_requests:
  assumes "isComplete (resolve w app (physicalDevice app))"
    and "graphicsFamily (resolve w app (physicalDevice app)) < 2 ^ 31"
    and "presentFamily (resolve w app (physicalDevice app)) < 2 ^ 31"
  shows "distinct (map queueFamilyIndex (queue_requests (snd (createLogicalDevice w app)))) \<and>
         set (map queueFamilyIndex (queue_requests (snd (createLogicalDevice w app)))) =
           {graphicsFamily (resolve w app (physicalDevice app)),
            presentFamily (resolve w app (physicalDevice app))} \<and>
         length (queue_requests (snd (createLogicalDevice w app))) =
           (if graphicsFamily (resolve w app (physicalDevice app)) =
               presentFamily (resolve w app (physicalDevice app)) then 1 else 2) \<and>
         (\<forall>r\<in>set (queue_requests (snd (createLogicalDevice w app))).
            queueCount_q r = 1 \<and> pQueuePriorities r = [1])"
proof -
  let ?g = "graphicsFamily (resolve w app (physicalDevice app))"
  let ?p = "presentFamily (resolve w app (physicalDevice app))"
  from assms have g: "to_uint32 ?g = ?g" and p: "to_uint32 ?p = ?p"
    by (simp_all add: isComplete_def to_uint32_id)
  show ?thesis
    unfolding queue_requests_createLogicalDevice
    using g p by (auto simp: Let_def)
qed

theorem builder_queue_requests_witness:
  "isComplete (resolve test_world same_family_app (physicalDevice same_family_app)) \<and>
   graphicsFamily (resolve test_world same_family_app (physicalDevice same_family_app)) = 0 \<and>
   presentFamily (resolve test_world same_family_app (physicalDevice same_family_app)) = 0 \<and>
   length (queue_requests (snd (createLogicalDevice test_world same_family_app))) = 1 \<and>
   isComplete (resolve test_world picked_app (physicalDevice picked_app)) \<and>
   graphicsFamily (resolve test_world picked_app (physicalDevice picked_app)) = 1 \<and>
   presentFamily (resolve test_world picked_app (physicalDevice picked_app)) = 2 \<and>
   length (queue_requests (snd (createLogicalDevice test_world picked_app))) = 2 \<and>
   set (map queueFamilyIndex (queue_requests (snd (createLogicalDevice test_world picked_app)))) =
     {1, 2}"
proof -
  have s: "resolve test_world same_family_app (physicalDevice same_family_app) =
           \<lparr>graphicsFamily = 0, presentFamily = 0\<rparr>"
    by (simp add: resolve_def same_family_app_def eval_resolver)
  have p: "resolve test_world picked_app (physicalDevice picked_app) =
           \<lparr>graphicsFamily = 1, presentFamily = 2\<rparr>"
    by (simp add: resolve_def picked_app_def eval_resolver)
  have 1: "length (queue_requests (snd (createLogicalDevice test_world same_family_app))) = 1"
    using builder_queue_requests [of test_world same_family_app]
    by (simp add: s isComplete_def)
  have 2: "length (queue_requests (snd (createLogicalDevice test_world picked_app))) = 2 \<and>
      set (map queueFamilyIndex (queue_requests (snd (createLogicalDevice test_world picked_app)))) =
        {1, 2}"
    using builder_queue_requests [of test_world picked_app]
    by (simp add: p isComplete_def)
  from 1 2 show ?thesis by (simp add: s p isComplete_def)
qed

text \<open>
  C5 fails on the code.  With adapter 12 selected, whose graphics family is 1 and whose
  present family is 2, the builder creates the device and retrieves one queue only,
  queue 0 of family 2 into \<open>presentQueue\<close>; no queue of family 1 is retrieved and
  \<open>graphicsQueue\<close> keeps the value it had.
\<close>

theorem builder_retrieves_present_queue_only:
  "resolve test_world picked_app 12 = \<lparr>graphicsFamily = 1, presentFamily = 2\<rparr> \<and>
   fst (createLogicalDevice test_world picked_app) =
     Inr (picked_app\<lparr>device := 40, presentQueue := 52\<rparr>) \<and>
   retrieved_queues (snd (createLogicalDevice test_world picked_app)) = [(2, 0)] \<and>
   graphicsQueue (picked_app\<lparr>device := 40, presentQueue := 52\<rparr>) = graphicsQueue picked_app"
  by (simp add: resolve_def createLogicalDevice_def eval_resolver picked_app_def to_uint32_def)

section \<open>Properties of the lifecycle controller\<close>

lemma acquisitions_append:
  "acquisitions (xs @ ys) = acquisitions xs @ acquisitions ys"
  by (induction xs rule: acquisitions.induct) simp_all

lemma releases_append:
  "releases (xs @ ys) = releases xs @ releases ys"
  by (induction xs rule: releases.induct) simp_all

lemma resources_loop:
  "acquisitions (snd (findQueueFamilies_loop w app dev i ind qs)) = [] \<and>
   releases (snd (findQueueFamilies_loop w app dev i ind qs)) = []"
  by (induction qs arbitrary: i ind) (simp_all add: loop_Cons)

lemma resources_findQueueFamilies:
  "acquisitions (snd (findQueueFamilies w app dev)) = [] \<and>
   releases (snd (findQueueFamilies w app dev)) = []"
  by (simp add: findQueueFamilies_def Let_def case_prod_beta resources_loop)

lemma resources_pick_loop:
  "acquisitions (snd (pickPhysicalDevice_loop w app devs)) = [] \<and>
   releases (snd (pickPhysicalDevice_loop w app devs)) = [] \<and>
   fst (pickPhysicalDevice_loop w app devs) =
     app\<lparr>physicalDevice := physicalDevice (fst (pickPhysicalDevice_loop w app devs))\<rparr>"
proof (induction devs)
  case Nil
  then show ?case by simp
next
  case (Cons a devs)
  then show ?case
    by (cases "fst (isDeviceSuitable w app a)")
       (simp_all add: case_prod_beta acquisitions_append releases_append isDeviceSuitable_snd
          resources_findQueueFamilies)
qed

lemma createInstance_Inr:
  "createInstance w app = (Inr app', cs) \<Longrightarrow>
   \<exists>h. app' = app\<lparr>vkInstance := h\<rparr> \<and> acquisitions cs = [Instance h] \<and> releases cs = []"
  by (auto simp: createInstance_def Let_def split: option.splits)

lemma createSurface_Inr:
  "createSurface w app = (Inr app', cs) \<Longrightarrow>
   \<exists>h. app' = app\<lparr>surface := h\<rparr> \<and> acquisitions cs = [Surface h] \<and> releases cs = []"
  by (auto simp: createSurface_def split: option.splits)

lemma pickPhysicalDevice_Inr:
  assumes "pickPhysicalDevice w app = (Inr app', cs)"
  shows "\<exists>d. app' = app\<lparr>physicalDevice := d\<rparr> \<and> acquisitions cs = [] \<and> releases cs = []"
proof -
  let ?l = "pickPhysicalDevice_loop w app (vkEnumeratePhysicalDevices w (vkInstance app))"
  from assms have 1: "app' = fst ?l"
    and 2: "cs = [VkEnumeratePhysicalDevices (vkInstance app) True,
                  VkEnumeratePhysicalDevices (vkInstance app) False] @ snd ?l"
    by (auto simp: pickPhysicalDevice_def Let_def case_prod_beta split: if_splits)
  from resources_pick_loop [of w app "vkEnumeratePhysicalDevices w (vkInstance app)"]
  have "app' = app\<lparr>physicalDevice := physicalDevice app'\<rparr> \<and> acquisitions cs = [] \<and>
        releases cs = []"
    unfolding 1 2 by (simp add: acquisitions_append releases_append)
  then show ?thesis by blast
qed

lemma createLogicalDevice_Inr:
  "createLogicalDevice w app = (Inr app', cs) \<Longrightarrow>
   \<exists>h q. app' = app\<lparr>device := h, presentQueue := q\<rparr> \<and> acquisitions cs = [Device h] \<and>
     releases cs = []"
  using resources_findQueueFamilies [of w app "physicalDevice app"]
  by (auto simp: createLogicalDevice_def Let_def case_prod_beta acquisitions_append releases_append
      split: option.splits)

lemma and_then_Inr:
  "and_then r f = (Inr app', cs) \<Longrightarrow>
   \<exists>app1 cs1 cs2. r = (Inr app1, cs1) \<and> f app1 = (Inr app', cs2) \<and> cs = cs1 @ cs2"
  by (cases r) (auto simp: and_then_def split: sum.splits prod.splits)

lemma initVulkan_Inr:
  assumes "initVulkan w app = (Inr app', cs)"
  shows "window app' = window app \<and>
         acquisitions cs = [Instance (vkInstance app'), Surface (surface app'), Device (device app')] \<and>
         releases cs = []"
proof -
  from assms obtain app3 cs3 cs4 where
    3: "and_then (and_then (createInstance w app) (createSurface w)) (pickPhysicalDevice w) = (Inr app3, cs3)"
    and 4: "createLogicalDevice w app3 = (Inr app', cs4)" and c4: "cs = cs3 @ cs4"
    unfolding initVulkan_def by (blast dest: and_then_Inr)
  from 3 obtain app2 cs2 cs3' where
    2: "and_then (createInstance w app) (createSurface w) = (Inr app2, cs2)"
    and p3: "pickPhysicalDevice w app2 = (Inr app3, cs3')" and c3: "cs3 = cs2 @ cs3'"
    by (blast dest: and_then_Inr)
  from 2 obtain app1 cs1 cs2' where
    1: "createInstance w app = (Inr app1, cs1)"
    and p2: "createSurface w app1 = (Inr app2, cs2')" and c2: "cs2 = cs1 @ cs2'"
    by (blast dest: and_then_Inr)
  from createInstance_Inr [OF 1] obtain i where
    i: "app1 = app\<lparr>vkInstance := i\<rparr>" "acquisitions cs1 = [Instance i]" "releases cs1 = []"
    by blast
  from createSurface_Inr [OF p2] obtain s where
    s: "app2 = app1\<lparr>surface := s\<rparr>" "acquisitions cs2' = [Surface s]" "releases cs2' = []"
    by blast
  from pickPhysicalDevice_Inr [OF p3] obtain p where
    p: "app3 = app2\<lparr>physicalDevice := p\<rparr>" "acquisitions cs3' = []" "releases cs3' = []"
    by blast
  from createLogicalDevice_Inr [OF 4] obtain d q where
    d: "app' = app3\<lparr>device := d, presentQueue := q\<rparr>" "acquisitions cs4 = [Device d]"
       "releases cs4 = []"
    by blast
  from i s p d show ?thesis
    by (simp add: c4 c3 c2 acquisitions_append releases_append)
qed

lemma mainLoop_loop_resources:
  assumes "mainLoop_loop w app polls cs = Some cs'"
  shows "acquisitions cs' = acquisitions cs \<and> releases cs' = releases cs"
  using assms
proof (induction w app polls cs cs' rule: mainLoop_loop.raw_induct [rotated 1, consumes 1])
  case (1 f w app polls cs cs')
  show ?case
  proof (cases "glfwWindowShouldClose w (window app) polls")
    case True
    with 1(2) show ?thesis by (auto simp: acquisitions_append releases_append)
  next
    case False
    with 1(2) have "f w app (Suc polls)
        (cs @ [GlfwWindowShouldClose (window app), GlfwPollEvents]) = Some cs'" by simp
    from 1(1) [OF this] show ?thesis by (simp add: acquisitions_append releases_append)
  qed
qed

lemma mainLoop_resources:
  "mainLoop w app = Some cs \<Longrightarrow> acquisitions cs = [] \<and> releases cs = []"
  using mainLoop_loop_resources [of w app 0 "[]" cs] by (simp add: mainLoop_def)

lemma cleanup_resources:
  "acquisitions (cleanup app) = [] \<and>
   releases (cleanup app) =
     [Device (device app), Surface (surface app), Instance (vkInstance app), Window (window app)]"
  by (simp add: cleanup_def)

lemmas eval_run =
  run_def initWindow_def initVulkan_def and_then_def createInstance_def createSurface_def
  pickPhysicalDevice_def isDeviceSuitable_def createLogicalDevice_def cleanup_def
  mainLoop_def mainLoop_loop.simps eval_resolver VK_NULL_HANDLE_def to_uint32_def WIDTH_def
  HEIGHT_def

lemma run_test_world:
  "run test_world test_app = Some (Inr test_run_app, test_run_calls)"
  by (simp add: eval_run test_run_app_def test_run_calls_def)

text \<open>
  C4.  A run that returns normally ends with the calls of \<open>cleanup\<close>.  Before them the
  run acquired the window, the instance, the surface and the device, in this order, and
  destroyed nothing; \<open>cleanup\<close> acquires nothing and destroys the same handles in the
  reverse order: device, surface, instance, window.
\<close>

theorem teardown_reverse_order:
  assumes "run w app = Some (Inr app', cs)"
  shows "\<exists>pre. cs = pre @ cleanup app' \<and>
           acquisitions pre =
             [Window (window app'), Instance (vkInstance app'), Surface (surface app'),
              Device (device app')] \<and>
           releases pre = [] \<and>
           acquisitions (cleanup app') = [] \<and>
           releases (cleanup app') = rev (acquisitions pre) \<and>
           releases cs = rev (acquisitions cs)"
proof -
  let ?app1 = "app\<lparr>window := glfwCreateWindow w\<rparr>"
  let ?cs1 = "snd (initWindow w app)"
  have w1: "initWindow w app = (?app1, ?cs1)" by (simp add: initWindow_def)
  have a1: "acquisitions ?cs1 = [Window (glfwCreateWindow w)]" and r1: "releases ?cs1 = []"
    by (simp_all add: initWindow_def)
  obtain r cs2 where v0: "initVulkan w ?app1 = (r, cs2)" by (cases "initVulkan w ?app1")
  have "\<exists>cs3. r = Inr app' \<and> mainLoop w app' = Some cs3 \<and> cs = ?cs1 @ cs2 @ cs3 @ cleanup app'"
  proof (cases r)
    case (Inl e)
    with assms v0 show ?thesis by (simp add: run_def initWindow_def)
  next
    case (Inr app2)
    with assms v0 show ?thesis
      by (cases "mainLoop w app2") (auto simp: run_def initWindow_def)
  qed
  then obtain cs3 where
    v: "initVulkan w ?app1 = (Inr app', cs2)" and m: "mainLoop w app' = Some cs3"
    and c: "cs = ?cs1 @ cs2 @ cs3 @ cleanup app'"
    using v0 by blast
  from initVulkan_Inr [OF v] have
    win: "window app' = glfwCreateWindow w"
    and a2: "acquisitions cs2 = [Instance (vkInstance app'), Surface (surface app'), Device (device app')]"
    and r2: "releases cs2 = []" by simp_all
  from mainLoop_resources [OF m] have a3: "acquisitions cs3 = []" and r3: "releases cs3 = []"
    by simp_all
  let ?pre = "?cs1 @ cs2 @ cs3"
  have "cs = ?pre @ cleanup app'" by (simp add: c)
  moreover have "acquisitions ?pre =
      [Window (window app'), Instance (vkInstance app'), Surface (surface app'), Device (device app')]"
    by (simp add: acquisitions_append a1 a2 a3 win)
  moreover have "releases ?pre = []" by (simp add: releases_append r1 r2 r3)
  moreover have "acquisitions (cleanup app') = []" by (simp add: cleanup_resources)
  moreover have "releases (cleanup app') = rev (acquisitions ?pre)"
    by (simp add: cleanup_resources acquisitions_append a1 a2 a3 win)
  moreover have "releases cs = rev (acquisitions cs)"
    by (simp add: c cleanup_resources acquisitions_append releases_append a1 a2 a3 r1 r2 r3 win)
  ultimately show ?thesis by blast
qed

theorem teardown_reverse_order_witness:
  "run test_world test_app = Some (Inr test_run_app, test_run_calls) \<and>
   acquisitions test_run_calls = [Window 10, Instance 20, Surface 30, Device 40] \<and>
   releases test_run_calls = [Device 40, Surface 30, Instance 20, Window 10] \<and>
   drop 29 test_run_calls = cleanup test_run_app"
proof -
  from teardown_reverse_order [OF run_test_world] obtain pre where
    c: "test_run_calls = pre @ cleanup test_run_app"
    and a: "acquisitions pre =
      [Window (window test_run_app), Instance (vkInstance test_run_app),
       Surface (surface test_run_app), Device (device test_run_app)]"
    and r: "releases pre = []"
    and ac: "acquisitions (cleanup test_run_app) = []"
    and rc: "releases (cleanup test_run_app) = rev (acquisitions pre)"
    by blast
  have 1: "acquisitions test_run_calls = [Window 10, Instance 20, Surface 30, Device 40]"
    unfolding c acquisitions_append a ac by (simp add: test_run_app_def)
  have 2: "releases test_run_calls = [Device 40, Surface 30, Instance 20, Window 10]"
    unfolding c releases_append r rc a by (simp add: test_run_app_def)
  have 3: "drop 29 test_run_calls = cleanup test_run_app"
    by (simp add: test_run_calls_def cleanup_def test_run_app_def)
  from run_test_world 1 2 3 show ?thesis by blast
qed

text \<open>
  C6 fails on the code.  When the window system cannot create the surface, the run
  throws after it acquired the window and the instance, \<open>main\<close> reports the failure,
  and no handle is destroyed: \<open>cleanup\<close> is only reached when initialisation succeeds.
\<close>

theorem run_leaks_on_surface_failure:
  "run surface_fail_world test_app =
     Some (Inl (runtime_error ''failed to create window surface!''), surface_fail_calls) \<and>
   main surface_fail_world test_app =
     Some (EXIT_FAILURE, [''failed to create window surface!''], surface_fail_calls) \<and>
   acquisitions surface_fail_calls = [Window 10, Instance 20] \<and>
   releases surface_fail_calls = []"
  by (simp add: main_def eval_run surface_fail_world_def surface_fail_calls_def)

end
